theory Spec2Isabelle
  imports Main "HOL-Library.Multiset"
begin

section \<open>Data model (types.ts)\<close>

text \<open>
  JavaScript strings are modelled as \<open>string\<close>; a character stands for one code unit
  below 256. Optional fields of the TypeScript interfaces are \<open>option\<close> values, numbers
  that the program only ever fills with integers (\<open>Date.now()\<close>, \<open>Math.floor\<close>) are
  \<open>int\<close>.
\<close>

record Folder =
  folder_id :: string
  folder_name :: string
  folder_timestamp :: int
  pin :: "string option"

record Note =
  note_id :: string
  title :: string
  transcription :: string
  summary :: "string option"
  actionItems :: "string list option"
  tags :: "string list"
  audioUrl :: string
  timestamp :: int
  duration :: int
  isPinned :: "bool option"
  isFavorite :: "bool option"
  folderId :: "string option"
  translatedTranscription :: "string option"
  translatedLanguage :: "string option"

datatype RecordingStatus = IDLE | RECORDING | TRANSCRIBING

datatype SortOption = Newest | Oldest | Longest | Shortest | Alphabetical

type_synonym ActiveView = string

text \<open>JavaScript truthiness of an optional string and of an optional boolean.\<close>

definition truthy_str :: "string option \<Rightarrow> bool" where
  "truthy_str s = (case s of None \<Rightarrow> False | Some v \<Rightarrow> v \<noteq> [])"

definition truthy_bool :: "bool option \<Rightarrow> bool" where
  "truthy_bool b = (case b of None \<Rightarrow> False | Some v \<Rightarrow> v)"

section \<open>String primitives of the platform\<close>

definition js_whitespace :: "char \<Rightarrow> bool" where
  "js_whitespace c = (of_char c \<in> {9, 10, 11, 12, 13, 32, 160 :: nat})"

definition trim :: "string \<Rightarrow> string" where
  "trim s = rev (dropWhile js_whitespace (rev (dropWhile js_whitespace s)))"

definition lower_char :: "char \<Rightarrow> char" where
  "lower_char c =
     (let k = (of_char c :: nat)
      in if (65 \<le> k \<and> k \<le> 90) \<or> (192 \<le> k \<and> k \<le> 222 \<and> k \<noteq> 215)
         then char_of (k + 32) else c)"

definition toLowerCase :: "string \<Rightarrow> string" where
  "toLowerCase s = map lower_char s"

fun startsWith :: "string \<Rightarrow> string \<Rightarrow> bool" where
  "startsWith s [] = True"
| "startsWith [] (q # qs) = False"
| "startsWith (c # cs) (q # qs) = (c = q \<and> startsWith cs qs)"

fun includes_str :: "string \<Rightarrow> string \<Rightarrow> bool" where
  "includes_str [] q = (q = [])"
| "includes_str (c # cs) q = (startsWith (c # cs) q \<or> includes_str cs q)"

text \<open>
  \<open>Array.prototype.sort\<close> with a comparator is stable; for a consistent comparator its
  result is the one of a stable insertion sort, which is how it is modelled: each element is
  placed before the first element of the sorted rest that it does not exceed.
\<close>

fun place_by :: "('a \<Rightarrow> 'a \<Rightarrow> int) \<Rightarrow> 'a \<Rightarrow> 'a list \<Rightarrow> 'a list" where
  "place_by cmp x [] = [x]"
| "place_by cmp x (y # ys) = (if cmp x y \<le> 0 then x # y # ys else y # place_by cmp x ys)"

fun sort_by_cmp :: "('a \<Rightarrow> 'a \<Rightarrow> int) \<Rightarrow> 'a list \<Rightarrow> 'a list" where
  "sort_by_cmp cmp [] = []"
| "sort_by_cmp cmp (x # xs) = place_by cmp x (sort_by_cmp cmp xs)"

section \<open>Folder access control and the visible list (App component)\<close>

text \<open>\<open>lockedFolderIds\<close> of \<open>filteredAndSortedNotes\<close>.\<close>

definition lockedFolderIds :: "Folder list \<Rightarrow> string list \<Rightarrow> string list" where
  "lockedFolderIds folders unlockedFolderIds =
     map folder_id (filter (\<lambda>f. truthy_str (pin f) \<and> folder_id f \<notin> set unlockedFolderIds) folders)"

text \<open>The test \<open>!n.folderId || !lockedFolderIds.includes(n.folderId)\<close>.\<close>

definition notLockedAway :: "string list \<Rightarrow> Note \<Rightarrow> bool" where
  "notLockedAway locked n =
     (case folderId n of None \<Rightarrow> True | Some f \<Rightarrow> f = [] \<or> f \<notin> set locked)"

text \<open>
  The comparator handed to \<open>result.sort\<close>. \<open>String.prototype.localeCompare\<close> is the
  platform's collation and is taken as the parameter \<open>lc\<close>.
\<close>

definition compareNotes :: "(string \<Rightarrow> string \<Rightarrow> int) \<Rightarrow> SortOption \<Rightarrow> Note \<Rightarrow> Note \<Rightarrow> int" where
  "compareNotes lc sortBy a b =
     (if truthy_bool (isPinned a) \<and> \<not> truthy_bool (isPinned b) then -1
      else if \<not> truthy_bool (isPinned a) \<and> truthy_bool (isPinned b) then 1
      else (case sortBy of
              Oldest \<Rightarrow> timestamp a - timestamp b
            | Longest \<Rightarrow> duration b - duration a
            | Shortest \<Rightarrow> duration a - duration b
            | Alphabetical \<Rightarrow> lc (title a) (title b)
            | Newest \<Rightarrow> timestamp b - timestamp a))"

definition searchFilter :: "string \<Rightarrow> Note list \<Rightarrow> Note list" where
  "searchFilter searchQuery result =
     (if trim searchQuery \<noteq> []
      then (let q = toLowerCase searchQuery
            in filter (\<lambda>n. includes_str (toLowerCase (title n)) q
                           \<or> includes_str (toLowerCase (transcription n)) q) result)
      else result)"

definition filteredAndSortedNotes ::
  "(string \<Rightarrow> string \<Rightarrow> int) \<Rightarrow> Note list \<Rightarrow> ActiveView \<Rightarrow> string \<Rightarrow> SortOption
     \<Rightarrow> Folder list \<Rightarrow> string list \<Rightarrow> Note list" where
  "filteredAndSortedNotes lc notes activeView searchQuery sortBy folders unlockedFolderIds =
     (let locked = lockedFolderIds folders unlockedFolderIds;
          finish = (\<lambda>result. sort_by_cmp (compareNotes lc sortBy) (searchFilter searchQuery result))
      in if activeView = ''all'' then finish (filter (notLockedAway locked) notes)
         else if activeView = ''uncategorized'' then finish (filter (\<lambda>n. \<not> truthy_str (folderId n)) notes)
         else if activeView = ''favorites''
           then finish (filter (\<lambda>n. truthy_bool (isFavorite n) \<and> notLockedAway locked n) notes)
         else if activeView \<in> set locked then []
         else finish (filter (\<lambda>n. folderId n = Some activeView) notes))"

section \<open>Application state\<close>

text \<open>
  The state of the \<open>App\<close> component: its \<open>useState\<close> cells and \<open>useRef\<close> cells, and
  the parts of the world its handlers act on (the audio blob store, the microphone streams
  that are live, the alerts shown, the console). \<open>pendingStarts\<close> holds the calls of
  \<open>startRecording\<close> that wait for the microphone, each with the \<open>activeView\<close> of the
  render in which it was made.
\<close>

datatype PinMode = SetPin | EnterPin

record PinModalState =
  mode :: PinMode
  modal_folderId :: string
  error :: "string option"

record Blob =
  blob_data :: "nat list"
  blob_type :: string

text \<open>
  A \<open>MediaRecorder\<close> together with what its \<open>onstop\<close> closure captured when
  \<open>startRecording\<close> created it: the mime type and the \<open>activeView\<close> of that render.
\<close>

record MediaRecorder =
  rec_stream :: nat
  rec_mimeType :: string
  rec_activeView :: ActiveView
  rec_recording :: bool

datatype BlobOp = PutBlob string | DeleteBlob string

record App =
  app_notes :: "Note list"
  folders :: "Folder list"
  activeView :: ActiveView
  searchQuery :: string
  sortBy :: SortOption
  status :: RecordingStatus
  timer :: int
  stream :: "nat option"
  unlockedFolderIds :: "string list"
  pinModal :: "PinModalState option"
  modal_pin :: string
  isAddingFolder :: bool
  newFolderName :: string
  mediaRecorderRef :: "MediaRecorder option"
  chunksRef :: "nat list list"
  timerRef :: bool
  startTimeRef :: "int option"
  wakeLockRef :: bool
  pendingStarts :: "ActiveView list"
  blobStore :: "string \<Rightarrow> Blob option"
  blobOps :: "BlobOp list"
  liveStreams :: "nat list"
  alerts :: "string list"
  consoleLog :: "string list"

text \<open>
  \<open>modal_pin\<close> is the \<open>pin\<close> state of the \<open>PinModal\<close> component. The component is
  mounted while \<open>pinModal\<close> is set and starts with the empty string, so closing the modal
  resets it.
\<close>

definition closePinModal :: "App \<Rightarrow> App" where
  "closePinModal st = st\<lparr>pinModal := None, modal_pin := []\<rparr>"

subsection \<open>PinModal\<close>

text \<open>The characters that the pattern \<open>\D\<close> does not match.\<close>

definition is_digit :: "char \<Rightarrow> bool" where
  "is_digit c = (c \<in> set ''0123456789'')"

text \<open>The input's \<open>onChange\<close>: \<open>value.replace(/\D/g, '')\<close>, kept when at most 4 long.\<close>

definition pin_onChange :: "string \<Rightarrow> string \<Rightarrow> string" where
  "pin_onChange val0 cur = (let val = filter is_digit val0 in if length val \<le> 4 then val else cur)"

text \<open>\<open>handleSubmit\<close>: \<open>Some pin\<close> when \<open>onConfirm(pin)\<close> is called.\<close>

definition handleSubmit :: "string \<Rightarrow> string option" where
  "handleSubmit cur = (if length cur = 4 then Some cur else None)"

subsection \<open>Folder handlers\<close>

definition handlePinConfirm :: "string \<Rightarrow> App \<Rightarrow> App" where
  "handlePinConfirm p st =
     (case pinModal st of
        None \<Rightarrow> st
      | Some pm \<Rightarrow>
          if mode pm = SetPin
          then closePinModal
                 (st\<lparr>folders := map (\<lambda>f. if folder_id f = modal_folderId pm then f\<lparr>pin := Some p\<rparr> else f)
                                    (folders st),
                     unlockedFolderIds := unlockedFolderIds st @ [modal_folderId pm]\<rparr>)
          else (case find (\<lambda>f. folder_id f = modal_folderId pm) (folders st) of
                  None \<Rightarrow> st\<lparr>pinModal := Some (pm\<lparr>error := Some ''Incorrect PIN''\<rparr>)\<rparr>
                | Some folder \<Rightarrow>
                    if pin folder = Some p
                    then closePinModal (st\<lparr>unlockedFolderIds := unlockedFolderIds st @ [modal_folderId pm]\<rparr>)
                    else st\<lparr>pinModal := Some (pm\<lparr>error := Some ''Incorrect PIN''\<rparr>)\<rparr>))"

definition handleFolderClick :: "Folder \<Rightarrow> App \<Rightarrow> App" where
  "handleFolderClick folder st =
     (let st1 = st\<lparr>activeView := folder_id folder\<rparr>
      in if truthy_str (pin folder) \<and> folder_id folder \<notin> set (unlockedFolderIds st)
         then st1\<lparr>pinModal := Some \<lparr>mode = EnterPin, modal_folderId = folder_id folder, error = None\<rparr>\<rparr>
         else st1)"

definition toggleFolderLock :: "bool \<Rightarrow> Folder \<Rightarrow> App \<Rightarrow> App" where
  "toggleFolderLock confirmed folder st =
     (if truthy_str (pin folder)
      then (if confirmed
            then st\<lparr>folders := map (\<lambda>f. if folder_id f = folder_id folder then f\<lparr>pin := None\<rparr> else f)
                                  (folders st),
                    unlockedFolderIds := filter (\<lambda>i. i \<noteq> folder_id folder) (unlockedFolderIds st)\<rparr>
            else st)
      else st\<lparr>pinModal := Some \<lparr>mode = SetPin, modal_folderId = folder_id folder, error = None\<rparr>\<rparr>)"

text \<open>\<open>onCancel\<close> of the modal as \<open>App\<close> passes it.\<close>

definition pinCancel :: "App \<Rightarrow> App" where
  "pinCancel st =
     (case pinModal st of
        None \<Rightarrow> st
      | Some pm \<Rightarrow> (if mode pm = EnterPin then (closePinModal st)\<lparr>activeView := ''all''\<rparr>
                    else closePinModal st))"

definition createFolder :: "string \<Rightarrow> int \<Rightarrow> App \<Rightarrow> App" where
  "createFolder newId now st =
     (if trim (newFolderName st) \<noteq> []
      then st\<lparr>folders := folders st @
                 [\<lparr>folder_id = newId, folder_name = trim (newFolderName st), folder_timestamp = now, pin = None\<rparr>],
              activeView := newId, newFolderName := [], isAddingFolder := False\<rparr>
      else st\<lparr>isAddingFolder := False\<rparr>)"

definition deleteFolder :: "bool \<Rightarrow> string \<Rightarrow> App \<Rightarrow> App" where
  "deleteFolder confirmed i st =
     (if confirmed
      then st\<lparr>folders := filter (\<lambda>f. folder_id f \<noteq> i) (folders st),
              app_notes := map (\<lambda>n. if folderId n = Some i then n\<lparr>folderId := None\<rparr> else n) (app_notes st),
              activeView := (if activeView st = i then ''all'' else activeView st)\<rparr>
      else st)"

text \<open>The list the main view renders from the state.\<close>

definition visibleNotes :: "(string \<Rightarrow> string \<Rightarrow> int) \<Rightarrow> App \<Rightarrow> Note list" where
  "visibleNotes lc st =
     filteredAndSortedNotes lc (app_notes st) (activeView st) (searchQuery st) (sortBy st)
       (folders st) (unlockedFolderIds st)"

section \<open>Recording and the transcription pipeline\<close>

text \<open>
  An awaited promise either resolves with a value or rejects with an error message.
\<close>

datatype 'a promise = Resolved 'a | Rejected string

text \<open>
  What the platform answers during one call of \<open>startRecording\<close>: \<open>getUserMedia\<close>
  rejects with an error (name and message) or yields a stream handle,
  \<open>MediaRecorder.isTypeSupported\<close> may throw (\<open>None\<close>), the \<open>MediaRecorder\<close> constructor
  and \<open>recorder.start\<close> may throw (the message), the wake lock API may be absent
  (\<open>None\<close>), grant or refuse, and \<open>Date.now()\<close>.
\<close>

record StartEnv =
  getUserMedia :: "(string \<times> string) + nat"
  isTypeSupported :: "string \<Rightarrow> bool option"
  newMediaRecorder :: "string option"
  recorderStart :: "string option"
  wakeLock :: "bool option"
  now :: int

definition getSupportedMimeType :: "(string \<Rightarrow> bool option) \<Rightarrow> string" where
  "getSupportedMimeType supported =
     (case find (\<lambda>t. supported t = Some True)
             [''audio/webm;codecs=opus'', ''audio/webm'', ''audio/mp4'', ''audio/aac'',
              ''audio/ogg;codecs=opus''] of
        None \<Rightarrow> []
      | Some t \<Rightarrow> t)"

definition requestWakeLock :: "bool option \<Rightarrow> App \<Rightarrow> App" where
  "requestWakeLock w st =
     (case w of
        None \<Rightarrow> st
      | Some True \<Rightarrow> st\<lparr>wakeLockRef := True\<rparr>
      | Some False \<Rightarrow> st\<lparr>consoleLog := consoleLog st @ [''Wake lock restricted:'']\<rparr>)"

definition releaseWakeLock :: "App \<Rightarrow> App" where
  "releaseWakeLock st = (if wakeLockRef st then st\<lparr>wakeLockRef := False\<rparr> else st)"

text \<open>\<open>s.getTracks().forEach(t => t.stop())\<close>: the stream stops being live.\<close>

definition stopTracks :: "nat \<Rightarrow> App \<Rightarrow> App" where
  "stopTracks s st = st\<lparr>liveStreams := removeAll s (liveStreams st)\<rparr>"

definition alert :: "string \<Rightarrow> App \<Rightarrow> App" where
  "alert msg st = st\<lparr>alerts := alerts st @ [msg]\<rparr>"

text \<open>
  \<open>startRecording\<close> tests no status. It first asks for the microphone and waits: until
  \<open>getUserMedia\<close> settles nothing is set, so the status stays what it was. The call keeps
  the \<open>activeView\<close> of the render in which it was made.
\<close>

definition startRecording_begin :: "App \<Rightarrow> App" where
  "startRecording_begin st = st\<lparr>pendingStarts := pendingStarts st @ [activeView st]\<rparr>"

text \<open>
  The rest of \<open>startRecording\<close>, run when \<open>getUserMedia\<close> has settled, in the state of
  that moment; \<open>view\<close> is the \<open>activeView\<close> the call kept, which the \<open>onstop\<close> closure
  of the recorder reads later. \<open>timerRef\<close> tells whether the interval it holds is running.
\<close>

definition startRecording_resume :: "ActiveView \<Rightarrow> StartEnv \<Rightarrow> App \<Rightarrow> App" where
  "startRecording_resume view env st =
     (case getUserMedia env of
        Inl (ename, emessage) \<Rightarrow>
          alert (''Microphone Access Error: '' @ ename @ [CHR 0x0A] @ emessage) st
      | Inr audioStream \<Rightarrow>
          (let st0 = st\<lparr>liveStreams := liveStreams st @ [audioStream]\<rparr>;
               mimeType = getSupportedMimeType (isTypeSupported env)
           in if mimeType = []
              then alert ''Format Error: Browser incompatible.'' (stopTracks audioStream st0)
              else (case newMediaRecorder env of
                      Some emessage \<Rightarrow>
                        (alert (''Initialization Error: '' @ emessage) (stopTracks audioStream st0))
                          \<lparr>status := IDLE\<rparr>
                    | None \<Rightarrow>
                        (let recorder = \<lparr>rec_stream = audioStream, rec_mimeType = mimeType,
                                         rec_activeView = view, rec_recording = False\<rparr>;
                             st1 = st0\<lparr>mediaRecorderRef := Some recorder, chunksRef := [],
                                       stream := Some audioStream\<rparr>
                         in (case recorderStart env of
                               Some emessage \<Rightarrow>
                                 (alert (''Initialization Error: '' @ emessage) (stopTracks audioStream st1))
                                   \<lparr>status := IDLE\<rparr>
                             | None \<Rightarrow>
                                 (requestWakeLock (wakeLock env)
                                    (st1\<lparr>mediaRecorderRef := Some (recorder\<lparr>rec_recording := True\<rparr>),
                                         status := RECORDING\<rparr>))
                                   \<lparr>startTimeRef := Some (now env), timer := 0, timerRef := True\<rparr>)))))"

text \<open>A call of \<open>startRecording\<close> whose microphone request settles with nothing in between.\<close>

definition startRecording :: "StartEnv \<Rightarrow> App \<Rightarrow> App" where
  "startRecording env st = startRecording_resume (activeView st) env st"

text \<open>
  The microphone request of the pending call at position \<open>k\<close> settles: the call leaves the
  pending ones and its rest runs.
\<close>

definition userMediaSettled :: "nat \<Rightarrow> StartEnv \<Rightarrow> App \<Rightarrow> App" where
  "userMediaSettled k env st =
     (if k < length (pendingStarts st)
      then startRecording_resume (pendingStarts st ! k) env
             (st\<lparr>pendingStarts := take k (pendingStarts st) @ drop (Suc k) (pendingStarts st)\<rparr>)
      else st)"

definition ondataavailable :: "nat list \<Rightarrow> App \<Rightarrow> App" where
  "ondataavailable chunk st = (if 0 < length chunk then st\<lparr>chunksRef := chunksRef st @ [chunk]\<rparr> else st)"

definition stopRecording :: "App \<Rightarrow> App" where
  "stopRecording st =
     (case mediaRecorderRef st of
        None \<Rightarrow> st
      | Some recorder \<Rightarrow>
          if status st = RECORDING
          then (let st1 = st\<lparr>mediaRecorderRef := Some (recorder\<lparr>rec_recording := False\<rparr>),
                             timerRef := False\<rparr>;
                    st2 = (case stream st of
                             None \<Rightarrow> st1
                           | Some s \<Rightarrow> (stopTracks s st1)\<lparr>stream := None\<rparr>)
                in releaseWakeLock st2)
          else st)"

text \<open>
  The capture bar renders the start button only in status \<open>IDLE\<close>, the stop button only in
  status \<open>RECORDING\<close>, and no button while transcribing. A click reaches a handler only
  through a button that is rendered. A click on the start button begins \<open>startRecording\<close>;
  the status is still \<open>IDLE\<close> afterwards, and the start button still rendered, until the
  microphone request settles.
\<close>

datatype Control = StartButton | StopButton

definition recorderControls :: "RecordingStatus \<Rightarrow> Control list" where
  "recorderControls s = (if s = IDLE then [StartButton] else if s = RECORDING then [StopButton] else [])"

definition click :: "Control \<Rightarrow> App \<Rightarrow> App" where
  "click c st =
     (if c \<in> set (recorderControls (status st))
      then (case c of StartButton \<Rightarrow> startRecording_begin st | StopButton \<Rightarrow> stopRecording st)
      else st)"

record TranscribeResponse =
  r_transcription :: string
  r_summary :: string
  r_actionItems :: "string list"
  r_suggestedTitle :: string
  r_tags :: "string list"

text \<open>
  \<open>transcribeAudio\<close> (geminiService.ts) turns every failure (request error, empty answer,
  unparsable answer: \<open>None\<close> here) into one error with a fixed message.
\<close>

definition transcribeAudio :: "TranscribeResponse option \<Rightarrow> TranscribeResponse promise" where
  "transcribeAudio answer =
     (case answer of
        None \<Rightarrow> Rejected ''Failed to process audio. Please try again.''
      | Some data \<Rightarrow> Resolved data)"

text \<open>
  Modelled from the spec: \<open>saveAudioBlob\<close> of services/storageService, which is not among the
  sources. The spec gives \<open>put(id, bytes, mimeType) -> ok | StorageError\<close>: the blob is
  stored under the id, or the call fails with a storage error and stores nothing.
\<close>

definition saveAudioBlob :: "string option \<Rightarrow> string \<Rightarrow> Blob \<Rightarrow> App \<Rightarrow> unit promise \<times> App" where
  "saveAudioBlob storageError i b st =
     (case storageError of
        Some emessage \<Rightarrow> (Rejected emessage, st\<lparr>blobOps := blobOps st @ [PutBlob i]\<rparr>)
      | None \<Rightarrow> (Resolved (), st\<lparr>blobStore := (blobStore st)(i := Some b),
                                  blobOps := blobOps st @ [PutBlob i]\<rparr>))"

text \<open>
  Modelled from the spec: \<open>deleteAudioBlob\<close> of services/storageService, which is not among
  the sources. The spec gives \<open>delete(id)\<close> on the blob store: the blob under the id is
  removed. Whether the awaited call settles with ok or with an error is a parameter
  (\<open>None\<close>: it resolves; \<open>Some\<close>: it rejects with that message and removes nothing).
  No alert and no log is attributed to the call: handling a failure is the caller's part.
\<close>

definition deleteAudioBlob :: "string option \<Rightarrow> string \<Rightarrow> App \<Rightarrow> unit promise \<times> App" where
  "deleteAudioBlob storeError i st =
     (case storeError of
        Some emessage \<Rightarrow> (Rejected emessage, st\<lparr>blobOps := blobOps st @ [DeleteBlob i]\<rparr>)
      | None \<Rightarrow> (Resolved (), st\<lparr>blobStore := (blobStore st)(i := None),
                                  blobOps := blobOps st @ [DeleteBlob i]\<rparr>))"

definition targetFolder :: "ActiveView \<Rightarrow> string option" where
  "targetFolder v = (if v = ''all'' \<or> v = ''uncategorized'' \<or> v = ''favorites'' then None else Some v)"

text \<open>
  \<open>recorder.onstop\<close> runs in three stretches separated by awaited calls; the values it
  computed at the beginning travel in its closure, here a \<open>Job\<close>.
\<close>

record Job =
  job_noteId :: string
  job_audioBlob :: Blob
  job_finalDuration :: int
  job_targetFolder :: "string option"
  job_mimeType :: string

definition onstop_begin :: "MediaRecorder \<Rightarrow> int \<Rightarrow> string \<Rightarrow> App \<Rightarrow> Job \<times> App" where
  "onstop_begin recorder tnow noteId st =
     (\<lparr>job_noteId = noteId,
       job_audioBlob = \<lparr>blob_data = concat (chunksRef st), blob_type = rec_mimeType recorder\<rparr>,
       job_finalDuration = (case startTimeRef st of
                              None \<Rightarrow> 0
                            | Some t \<Rightarrow> if t = 0 then 0 else (tnow - t) div 1000),
       job_targetFolder = targetFolder (rec_activeView recorder),
       job_mimeType = rec_mimeType recorder\<rparr>,
      st\<lparr>status := TRANSCRIBING\<rparr>)"

text \<open>After \<open>await saveAudioBlob\<close>: the outer \<open>catch\<close>, or the file reader is started.\<close>

definition onstop_persist :: "string option \<Rightarrow> Job \<Rightarrow> App \<Rightarrow> bool \<times> App" where
  "onstop_persist storageError job st =
     (case saveAudioBlob storageError (job_noteId job) (job_audioBlob job) st of
        (Rejected emessage, st1) \<Rightarrow>
          (False, (alert (''Analysis Error: '' @ emessage) st1)\<lparr>status := IDLE, timer := 0\<rparr>)
      | (Resolved u, st1) \<Rightarrow> (True, st1))"

definition newNote :: "Job \<Rightarrow> TranscribeResponse \<Rightarrow> int \<Rightarrow> Note" where
  "newNote job data tnow =
     \<lparr>note_id = job_noteId job, title = r_suggestedTitle data,
      transcription = r_transcription data, summary = Some (r_summary data),
      actionItems = Some (r_actionItems data), tags = r_tags data,
      audioUrl = [], timestamp = tnow, duration = job_finalDuration job,
      isPinned = Some False, isFavorite = Some False,
      folderId = job_targetFolder job,
      translatedTranscription = None, translatedLanguage = None\<rparr>"

text \<open>
  \<open>reader.onloadend\<close>. When the reader has no result (\<open>readOk\<close> false) the handler throws
  before its \<open>try\<close> and nothing is set. \<open>setNotes\<close> is given a function of the previous
  list, so the new note goes in front of the notes of the state in which the handler runs.
\<close>

definition onloadend :: "bool \<Rightarrow> TranscribeResponse option \<Rightarrow> int \<Rightarrow> Job \<Rightarrow> App \<Rightarrow> App" where
  "onloadend readOk answer tnow job st =
     (if \<not> readOk then st
      else (let st1 = (case transcribeAudio answer of
                         Resolved data \<Rightarrow> st\<lparr>app_notes := newNote job data tnow # app_notes st\<rparr>
                       | Rejected emessage \<Rightarrow> alert (''Transcription failed: '' @ emessage) st)
            in st1\<lparr>status := IDLE, timer := 0\<rparr>))"

text \<open>The three stretches run one after the other, nothing in between.\<close>

definition onstop ::
  "MediaRecorder \<Rightarrow> int \<Rightarrow> string \<Rightarrow> string option \<Rightarrow> bool \<Rightarrow> TranscribeResponse option \<Rightarrow> int
     \<Rightarrow> App \<Rightarrow> App" where
  "onstop recorder tnow noteId storageError readOk answer tnow2 st =
     (case onstop_begin recorder tnow noteId st of
        (job, st1) \<Rightarrow>
          (case onstop_persist storageError job st1 of
             (False, st2) \<Rightarrow> st2
           | (True, st2) \<Rightarrow> onloadend readOk answer tnow2 job st2))"

section \<open>Note store\<close>

text \<open>
  \<open>deleteNote\<close>: after the confirmation, the blob delete is awaited and then the note is
  filtered out. There is no \<open>try\<close> around the awaited call and no log: when the call
  rejects, the function ends there and \<open>setNotes\<close> is not reached.
\<close>

definition deleteNote :: "bool \<Rightarrow> string option \<Rightarrow> string \<Rightarrow> App \<Rightarrow> App" where
  "deleteNote confirmed storeError i st =
     (if confirmed
      then (case deleteAudioBlob storeError i st of
              (Resolved u, st1) \<Rightarrow> st1\<lparr>app_notes := filter (\<lambda>n. note_id n \<noteq> i) (app_notes st1)\<rparr>
            | (Rejected emessage, st1) \<Rightarrow> st1)
      else st)"

text \<open>\<open>updateNote\<close>: the merge \<open>{...n, ...updates}\<close> is a function of the note.\<close>

definition updateNote :: "string \<Rightarrow> (Note \<Rightarrow> Note) \<Rightarrow> App \<Rightarrow> App" where
  "updateNote i updates st = st\<lparr>app_notes := map (\<lambda>n. if note_id n = i then updates n else n) (app_notes st)\<rparr>"

section \<open>Events of the App component\<close>

text \<open>The button of the locked view, rendered when the active folder is locked.\<close>

definition unlockButton :: "App \<Rightarrow> App" where
  "unlockButton st =
     (case find (\<lambda>f. folder_id f = activeView st) (folders st) of
        None \<Rightarrow> st
      | Some folder \<Rightarrow>
          if truthy_str (pin folder) \<and> activeView st \<notin> set (unlockedFolderIds st)
          then st\<lparr>pinModal := Some \<lparr>mode = EnterPin, modal_folderId = folder_id folder, error = None\<rparr>\<rparr>
          else st)"

text \<open>
  Every handler of the component that changes notes, folders, the unlocked ids, the PIN
  dialog or the recorder, as an event. A folder button stands at an index of the rendered
  folder list; the events of the PIN dialog exist while the dialog is mounted.
\<close>

datatype Event =
    SetActiveView ActiveView
  | SetSearchQuery string
  | SetSortBy SortOption
  | OpenAddFolder
  | SetNewFolderName string
  | CreateFolder string int
  | FolderClick nat
  | ToggleFolderLock nat bool
  | DeleteFolder nat bool
  | UnlockButton
  | PinChange string
  | PinSubmit
  | PinCancel
  | Click Control
  | UserMediaSettled nat StartEnv
  | DataAvailable "nat list"
  | RecorderStopped MediaRecorder int string "string option" bool "TranscribeResponse option" int
  | DeleteNote bool "string option" string
  | UpdateNote string "Note \<Rightarrow> Note"

fun step :: "Event \<Rightarrow> App \<Rightarrow> App" where
  "step (SetActiveView v) st = st\<lparr>activeView := v\<rparr>"
| "step (SetSearchQuery q) st = st\<lparr>searchQuery := q\<rparr>"
| "step (SetSortBy sb) st = st\<lparr>sortBy := sb\<rparr>"
| "step OpenAddFolder st = st\<lparr>isAddingFolder := True\<rparr>"
| "step (SetNewFolderName n) st = st\<lparr>newFolderName := n\<rparr>"
| "step (CreateFolder newId tnow) st = createFolder newId tnow st"
| "step (FolderClick k) st = (if k < length (folders st) then handleFolderClick (folders st ! k) st else st)"
| "step (ToggleFolderLock k confirmed) st =
     (if k < length (folders st) then toggleFolderLock confirmed (folders st ! k) st else st)"
| "step (DeleteFolder k confirmed) st =
     (if k < length (folders st) then deleteFolder confirmed (folder_id (folders st ! k)) st else st)"
| "step UnlockButton st = unlockButton st"
| "step (PinChange v) st =
     (if pinModal st = None then st else st\<lparr>modal_pin := pin_onChange v (modal_pin st)\<rparr>)"
| "step PinSubmit st =
     (if pinModal st = None then st
      else (case handleSubmit (modal_pin st) of None \<Rightarrow> st | Some p \<Rightarrow> handlePinConfirm p st))"
| "step PinCancel st = pinCancel st"
| "step (Click c) st = click c st"
| "step (UserMediaSettled k env) st = userMediaSettled k env st"
| "step (DataAvailable chunk) st = ondataavailable chunk st"
| "step (RecorderStopped recorder tnow noteId storageError readOk answer tnow2) st =
     onstop recorder tnow noteId storageError readOk answer tnow2 st"
| "step (DeleteNote confirmed storeError i) st = deleteNote confirmed storeError i st"
| "step (UpdateNote i updates) st = updateNote i updates st"

fun run :: "Event list \<Rightarrow> App \<Rightarrow> App" where
  "run [] st = st"
| "run (e # es) st = run es (step e st)"

text \<open>A PIN of exactly four digits, and folders whose PINs, where present, are such.\<close>

definition valid_pin :: "string \<Rightarrow> bool" where
  "valid_pin p = (length p = 4 \<and> list_all is_digit p)"

definition pins_ok :: "Folder list \<Rightarrow> bool" where
  "pins_ok fs = list_all (\<lambda>f. case pin f of None \<Rightarrow> True | Some p \<Rightarrow> valid_pin p) fs"

definition pin_inv :: "App \<Rightarrow> bool" where
  "pin_inv st = (pins_ok (folders st) \<and> list_all is_digit (modal_pin st))"

section \<open>Audio of a note card (NoteCard component)\<close>

text \<open>
  Each card has its own playback flag, its own \<open>audio\<close> element and its own read-aloud
  state; no state is shared between cards. \<open>audioSounding\<close> tells whether the card's
  \<open>audio\<close> element is playing, \<open>soundingSources\<close> lists the buffer sources of the card
  that were started and have neither been stopped nor ended.
\<close>

datatype TtsStatus = TtsIdle | TtsLoading | TtsPlaying

datatype TtsSection = SummarySection | TranscriptionSection

record NoteCard =
  card_note :: Note
  isPlaying :: bool
  ttsStatus :: TtsStatus
  activeTtsSection :: "TtsSection option"
  ttsAudioRef :: "nat option"
  audioRef :: bool
  audioSounding :: bool
  soundingSources :: "nat list"

definition mountCard :: "Note \<Rightarrow> NoteCard" where
  "mountCard n = \<lparr>card_note = n, isPlaying = False, ttsStatus = TtsIdle, activeTtsSection = None,
                  ttsAudioRef = None, audioRef = True, audioSounding = False, soundingSources = []\<rparr>"

definition stopTts :: "NoteCard \<Rightarrow> NoteCard" where
  "stopTts c =
     (let c1 = (case ttsAudioRef c of
                  None \<Rightarrow> c
                | Some s \<Rightarrow> c\<lparr>soundingSources := removeAll s (soundingSources c), ttsAudioRef := None\<rparr>)
      in c1\<lparr>ttsStatus := TtsIdle, activeTtsSection := None\<rparr>)"

text \<open>\<open>togglePlay\<close>; \<open>playOk\<close> tells whether \<open>audio.play()\<close> succeeds.\<close>

definition togglePlay :: "bool \<Rightarrow> NoteCard \<Rightarrow> NoteCard" where
  "togglePlay playOk c =
     (if audioRef c
      then (if isPlaying c then c\<lparr>audioSounding := False\<rparr>
            else (stopTts c)\<lparr>audioSounding := playOk\<rparr>)\<lparr>isPlaying := \<not> isPlaying c\<rparr>
      else c)"

definition textToRead :: "TtsSection \<Rightarrow> Note \<Rightarrow> string option" where
  "textToRead sect n =
     (case sect of
        SummarySection \<Rightarrow> summary n
      | TranscriptionSection \<Rightarrow>
          (if truthy_str (translatedTranscription n) then translatedTranscription n
           else Some (transcription n)))"

text \<open>
  \<open>handleReadAloud\<close> up to its first \<open>await\<close> (the flag tells whether speech is
  requested), and from there on: \<open>speech\<close> is the started buffer source, or \<open>None\<close> when
  synthesis or decoding fails.
\<close>

definition handleReadAloud_begin :: "TtsSection \<Rightarrow> NoteCard \<Rightarrow> bool \<times> NoteCard" where
  "handleReadAloud_begin sect c =
     (if ttsStatus c = TtsPlaying \<and> activeTtsSection c = Some sect then (False, stopTts c)
      else (let c1 = stopTts c;
                c2 = (if isPlaying c \<and> audioRef c then c1\<lparr>audioSounding := False, isPlaying := False\<rparr>
                      else c1);
                c3 = c2\<lparr>ttsStatus := TtsLoading, activeTtsSection := Some sect\<rparr>
            in if \<not> truthy_str (textToRead sect (card_note c)) then (False, c3\<lparr>ttsStatus := TtsIdle\<rparr>)
               else (True, c3)))"

definition handleReadAloud_finish :: "nat option \<Rightarrow> NoteCard \<Rightarrow> NoteCard" where
  "handleReadAloud_finish speech c =
     (case speech of
        Some source \<Rightarrow> c\<lparr>soundingSources := soundingSources c @ [source], ttsAudioRef := Some source,
                           ttsStatus := TtsPlaying\<rparr>
      | None \<Rightarrow> c\<lparr>ttsStatus := TtsIdle, activeTtsSection := None\<rparr>)"

text \<open>A read-aloud request that loads with nothing happening on the card meanwhile.\<close>

definition handleReadAloud :: "TtsSection \<Rightarrow> nat option \<Rightarrow> NoteCard \<Rightarrow> NoteCard" where
  "handleReadAloud sect speech c =
     (case handleReadAloud_begin sect c of
        (False, c1) \<Rightarrow> c1
      | (True, c1) \<Rightarrow> handleReadAloud_finish speech c1)"

definition source_onended :: "nat \<Rightarrow> NoteCard \<Rightarrow> NoteCard" where
  "source_onended source c =
     c\<lparr>soundingSources := removeAll source (soundingSources c), ttsStatus := TtsIdle,
       activeTtsSection := None\<rparr>"

definition audio_onEnded :: "NoteCard \<Rightarrow> NoteCard" where
  "audio_onEnded c = c\<lparr>audioSounding := False, isPlaying := False\<rparr>"

datatype CardAction =
    TogglePlay bool
  | ReadAloud TtsSection "nat option"
  | SourceEnded nat
  | AudioEnded

fun cardStep :: "CardAction \<Rightarrow> NoteCard \<Rightarrow> NoteCard" where
  "cardStep (TogglePlay playOk) c = togglePlay playOk c"
| "cardStep (ReadAloud sect speech) c = handleReadAloud sect speech c"
| "cardStep (SourceEnded source) c = source_onended source c"
| "cardStep AudioEnded c = audio_onEnded c"

text \<open>The cards of the rendered notes; an action happens on the card at an index.\<close>

definition onCard :: "nat \<Rightarrow> CardAction \<Rightarrow> NoteCard list \<Rightarrow> NoteCard list" where
  "onCard k a cards = (if k < length cards then cards[k := cardStep a (cards ! k)] else cards)"

definition audible :: "NoteCard \<Rightarrow> nat" where
  "audible c = (if audioSounding c then 1 else 0) + length (soundingSources c)"

definition audibleSources :: "NoteCard list \<Rightarrow> nat" where
  "audibleSources cards = sum_list (map audible cards)"

text \<open>
  What holds of a card between actions: the only source that may sound is the one in
  \<open>ttsAudioRef\<close>, and while the recording plays no source sounds and no read-aloud is
  marked as playing.
\<close>

definition cardExclusive :: "NoteCard \<Rightarrow> bool" where
  "cardExclusive c =
     ((soundingSources c = [] \<or> map Some (soundingSources c) = [ttsAudioRef c])
      \<and> (if audioSounding c
           then isPlaying c \<and> audioRef c \<and> soundingSources c = [] \<and> ttsStatus c \<noteq> TtsPlaying
           else True))"

section \<open>The specification's notion of a locked folder\<close>

text \<open>
  The specification's words: a folder is locked iff it has a PIN and its id is absent from
  the unlocked set. Folders are found by id; a PIN is a non-empty string.
\<close>

definition spec_isLocked :: "Folder list \<Rightarrow> string list \<Rightarrow> string \<Rightarrow> bool" where
  "spec_isLocked fs unl X = ((\<exists>f\<in>set fs. folder_id f = X \<and> pin f \<noteq> None \<and> pin f \<noteq> Some []) \<and> X \<notin> set unl)"

text \<open>The three built-in views; every other view string names a folder.\<close>

definition specialView :: "string \<Rightarrow> bool" where
  "specialView v = (v = ''all'' \<or> v = ''uncategorized'' \<or> v = ''favorites'')"

text \<open>
  A consistent comparator, as \<open>Array.prototype.sort\<close> asks for: any two elements are
  comparable and "not after" is transitive.
\<close>

definition consistent :: "('a \<Rightarrow> 'a \<Rightarrow> int) \<Rightarrow> bool" where
  "consistent cmp = ((\<forall>x y. cmp x y \<le> 0 \<or> cmp y x \<le> 0)
                     \<and> (\<forall>x y z. cmp x y \<le> 0 \<and> cmp y z \<le> 0 \<longrightarrow> cmp x z \<le> 0))"

section \<open>Example data\<close>

text \<open>The state of a first start: nothing persisted, nothing recorded.\<close>

definition initialApp :: App where
  "initialApp =
     \<lparr>app_notes = [], folders = [], activeView = ''all'', searchQuery = [], sortBy = Newest,
      status = IDLE, timer = 0, stream = None, unlockedFolderIds = [], pinModal = None,
      modal_pin = [], isAddingFolder = False, newFolderName = [], mediaRecorderRef = None,
      chunksRef = [], timerRef = False, startTimeRef = None, wakeLockRef = False,
      pendingStarts = [],
      blobStore = (\<lambda>i. None), blobOps = [], liveStreams = [], alerts = [], consoleLog = []\<rparr>"

text \<open>
  A comparator for the worked examples, in place of the platform's collation: it compares
  the lower-cased strings code unit by code unit.
\<close>

fun lex_compare :: "nat list \<Rightarrow> nat list \<Rightarrow> int" where
  "lex_compare [] [] = 0"
| "lex_compare [] (y # ys) = -1"
| "lex_compare (x # xs) [] = 1"
| "lex_compare (x # xs) (y # ys) = (if x < y then -1 else if y < x then 1 else lex_compare xs ys)"

definition sampleLocaleCompare :: "string \<Rightarrow> string \<Rightarrow> int" where
  "sampleLocaleCompare a b = lex_compare (map of_char (toLowerCase a)) (map of_char (toLowerCase b))"

definition exampleNote :: "string \<Rightarrow> bool \<Rightarrow> string option \<Rightarrow> Note" where
  "exampleNote t p f =
     \<lparr>note_id = t, title = t, transcription = [], summary = None, actionItems = None, tags = [],
      audioUrl = [], timestamp = 0, duration = 0, isPinned = Some p, isFavorite = Some False,
      folderId = f, translatedTranscription = None, translatedLanguage = None\<rparr>"

definition scenarioNotes :: "Note list" where
  "scenarioNotes = [exampleNote ''Banana'' False None, exampleNote ''apple'' False None,
                    exampleNote ''Cherry'' True None]"

definition enterPinApp :: App where
  "enterPinApp = initialApp\<lparr>folders := [\<lparr>folder_id = ''f1'', folder_name = ''Work'', folder_timestamp = 1, pin = Some ''1234''\<rparr>],
       pinModal := Some \<lparr>mode = EnterPin, modal_folderId = ''f1'', error = None\<rparr>\<rparr>"

definition protectedFolder :: Folder where
  "protectedFolder = \<lparr>folder_id = ''f1'', folder_name = ''Work'', folder_timestamp = 1, pin = Some ''1234''\<rparr>"

definition lockedViewApp :: App where
  "lockedViewApp = initialApp\<lparr>app_notes := [exampleNote ''N'' False (Some ''f1''), exampleNote ''M'' False None],
       folders := [protectedFolder], activeView := ''f1'',
       pinModal := Some \<lparr>mode = EnterPin, modal_folderId = ''f1'', error = None\<rparr>\<rparr>"

definition goodEnv :: "nat \<Rightarrow> int \<Rightarrow> StartEnv" where
  "goodEnv s t = \<lparr>getUserMedia = Inr s, isTypeSupported = (\<lambda>ty. Some (ty = ''audio/webm'')),
                  newMediaRecorder = None, recorderStart = None, wakeLock = None, now = t\<rparr>"

definition recordingApp :: App where
  "recordingApp = ondataavailable [1, 2, 3] (startRecording (goodEnv 1 1000) initialApp)"

definition stoppedRecorder :: MediaRecorder where
  "stoppedRecorder = \<lparr>rec_stream = 1, rec_mimeType = ''audio/webm'', rec_activeView = ''all'',
                       rec_recording = False\<rparr>"





definition doubleStartEvents :: "Event list" where
  "doubleStartEvents = [Click StartButton, Click StartButton, UserMediaSettled 0 (goodEnv 1 1000),
                        DataAvailable [1, 2, 3]]"

definition setPinEvents :: "Event list" where
  "setPinEvents = [OpenAddFolder, SetNewFolderName ''Work'', CreateFolder ''f1'' 5,
                   ToggleFolderLock 0 True, PinChange ''12a34'', PinSubmit]"

definition twoCards :: "NoteCard list" where
  "twoCards = [mountCard ((exampleNote ''A'' False None)\<lparr>transcription := ''hello''\<rparr>),
               mountCard ((exampleNote ''B'' False None)\<lparr>transcription := ''world''\<rparr>)]"

section \<open>Sorting: permutation and pinned notes first\<close>

lemma mset_place_by: "mset (place_by cmp x ys) = add_mset x (mset ys)"
  by (induction ys) auto

lemma mset_sort_by_cmp: "mset (sort_by_cmp cmp xs) = mset xs"
  by (induction xs) (auto simp: mset_place_by)

lemma set_place_by: "set (place_by cmp x ys) = insert x (set ys)"
  by (induction ys) auto

lemma set_sort_by_cmp: "set (sort_by_cmp cmp xs) = set xs"
  by (induction xs) (auto simp: set_place_by)

lemma place_by_keeps_front:
  assumes lt: "\<And>a b. P a \<Longrightarrow> \<not> P b \<Longrightarrow> cmp a b \<le> 0"
      and gt: "\<And>a b. \<not> P a \<Longrightarrow> P b \<Longrightarrow> 0 < cmp a b"
      and srt: "sorted_wrt (\<lambda>a b. P b \<longrightarrow> P a) ys"
  shows "sorted_wrt (\<lambda>a b. P b \<longrightarrow> P a) (place_by cmp x ys)"
  using srt
proof (induction ys)
  case Nil
  then show ?case by simp
next
  case (Cons y ys)
  show ?case
  proof (cases "cmp x y \<le> 0")
    case True
    have "P z \<longrightarrow> P x" if "z \<in> set (y # ys)" for z
    proof
      assume pz: "P z"
      show "P x"
      proof (rule ccontr)
        assume nx: "\<not> P x"
        have "\<not> P y" using gt[OF nx] True by force
        moreover have "P z \<longrightarrow> P y" using Cons.prems that by auto
        ultimately show False using pz by simp
      qed
    qed
    with True Cons.prems show ?thesis by simp
  next
    case False
    have "P x \<longrightarrow> P y" using lt[of x y] False by force
    with False Cons show ?thesis by (auto simp: set_place_by)
  qed
qed

lemma sort_by_cmp_front:
  assumes lt: "\<And>a b. P a \<Longrightarrow> \<not> P b \<Longrightarrow> cmp a b \<le> 0"
      and gt: "\<And>a b. \<not> P a \<Longrightarrow> P b \<Longrightarrow> 0 < cmp a b"
  shows "sorted_wrt (\<lambda>a b. P b \<longrightarrow> P a) (sort_by_cmp cmp xs)"
  by (induction xs) (auto intro: place_by_keeps_front[where P=P and cmp=cmp] lt gt)

lemma compareNotes_pinned_first:
  "truthy_bool (isPinned a) \<Longrightarrow> \<not> truthy_bool (isPinned b) \<Longrightarrow> compareNotes lc sb a b \<le> 0"
  by (simp add: compareNotes_def)

lemma compareNotes_unpinned_later:
  "\<not> truthy_bool (isPinned a) \<Longrightarrow> truthy_bool (isPinned b) \<Longrightarrow> 0 < compareNotes lc sb a b"
  by (simp add: compareNotes_def)

lemma visible_pinned_sorted:
  "sorted_wrt (\<lambda>a b. truthy_bool (isPinned b) \<longrightarrow> truthy_bool (isPinned a))
     (filteredAndSortedNotes lc ns v q sb fs unl)"
  unfolding filteredAndSortedNotes_def Let_def
  by (auto intro!: sort_by_cmp_front compareNotes_pinned_first compareNotes_unpinned_later)

section \<open>Blank queries\<close>

lemma dropWhile_all: "\<forall>c\<in>set s. P c \<Longrightarrow> dropWhile P s = []"
  by (induction s) auto

lemma trim_blank: "\<forall>c\<in>set s. js_whitespace c \<Longrightarrow> trim s = []"
  by (simp add: trim_def dropWhile_all)

lemma searchFilter_blank: "\<forall>c\<in>set q. js_whitespace c \<Longrightarrow> searchFilter q xs = xs"
  by (simp add: searchFilter_def trim_blank)

section \<open>Views and locks\<close>

lemma locked_spec: "X \<in> set (lockedFolderIds fs unl) \<longleftrightarrow> spec_isLocked fs unl X"
  by (auto simp: lockedFolderIds_def spec_isLocked_def truthy_str_def split: option.splits)

lemma notLockedAway_spec:
  "notLockedAway (lockedFolderIds fs unl) n
     = (case folderId n of None \<Rightarrow> True | Some i \<Rightarrow> i = [] \<or> \<not> spec_isLocked fs unl i)"
  by (simp add: notLockedAway_def locked_spec split: option.splits)

lemma folder_view_unlocked:
  assumes "\<not> specialView X" "\<not> spec_isLocked fs unl X"
  shows "filteredAndSortedNotes lc ns X q sb fs unl
         = sort_by_cmp (compareNotes lc sb) (searchFilter q (filter (\<lambda>n. folderId n = Some X) ns))"
  using assms by (simp add: filteredAndSortedNotes_def specialView_def locked_spec)

lemma folder_view_locked:
  assumes "\<not> specialView X" "spec_isLocked fs unl X"
  shows "filteredAndSortedNotes lc ns X q sb fs unl = []"
  using assms by (simp add: filteredAndSortedNotes_def specialView_def locked_spec)

lemma all_view:
  "filteredAndSortedNotes lc ns ''all'' q sb fs unl
     = sort_by_cmp (compareNotes lc sb) (searchFilter q (filter (notLockedAway (lockedFolderIds fs unl)) ns))"
  by (simp add: filteredAndSortedNotes_def)

lemma authenticate_effect:
  assumes "pinModal st = Some pm" and "mode pm = EnterPin"
      and "find (\<lambda>f. folder_id f = modal_folderId pm) (folders st) = Some folder"
      and "pin folder = Some p"
  shows "handlePinConfirm p st
         = st\<lparr>unlockedFolderIds := unlockedFolderIds st @ [modal_folderId pm], pinModal := None, modal_pin := []\<rparr>"
  using assms by (simp add: handlePinConfirm_def closePinModal_def)

lemma not_locked_after_unlock: "\<not> spec_isLocked fs (unl @ [X]) X"
  by (simp add: spec_isLocked_def)

lemma other_lock_unchanged: "Y \<noteq> X \<Longrightarrow> spec_isLocked fs (unl @ [X]) Y = spec_isLocked fs unl Y"
  by (simp add: spec_isLocked_def)

text \<open>
  C4, as amended. For a view \<open>X\<close> that names a folder and a blank query: the view is empty
  whenever folder \<open>X\<close> is locked; when it is not locked the view is a rearrangement of all
  notes referencing \<open>X\<close> (so, provided some note references \<open>X\<close>, the view is empty
  exactly when \<open>X\<close> is locked); the view "all" is a rearrangement of the notes with no
  folder or whose folder is not locked; and a successful authenticate on \<open>X\<close> changes the
  state only by adding \<open>X\<close> to the unlocked ids and closing the PIN dialog, after which the
  notes of \<open>X\<close> are visible and the lock state of every other folder is as before.
\<close>

theorem folder_view_lock_filter:
  assumes nsv: "\<not> specialView X" and blank: "\<forall>c\<in>set q. js_whitespace c"
  shows "(spec_isLocked fs unl X \<longrightarrow> filteredAndSortedNotes lc ns X q sb fs unl = [])
       \<and> (\<not> spec_isLocked fs unl X \<longrightarrow>
            mset (filteredAndSortedNotes lc ns X q sb fs unl) = mset (filter (\<lambda>n. folderId n = Some X) ns))
       \<and> ((\<exists>n\<in>set ns. folderId n = Some X) \<longrightarrow>
            (filteredAndSortedNotes lc ns X q sb fs unl = [] \<longleftrightarrow> spec_isLocked fs unl X))
       \<and> mset (filteredAndSortedNotes lc ns ''all'' q sb fs unl)
           = mset (filter (\<lambda>n. case folderId n of None \<Rightarrow> True
                                 | Some i \<Rightarrow> i = [] \<or> \<not> spec_isLocked fs unl i) ns)
       \<and> (pinModal st = Some pm \<and> mode pm = EnterPin \<and> modal_folderId pm = X
             \<and> find (\<lambda>f. folder_id f = X) (folders st) = Some folder \<and> pin folder = Some p
             \<and> activeView st = X \<and> searchQuery st = q
           \<longrightarrow> handlePinConfirm p st
                 = st\<lparr>unlockedFolderIds := unlockedFolderIds st @ [X], pinModal := None, modal_pin := []\<rparr>
               \<and> mset (visibleNotes lc (handlePinConfirm p st))
                 = mset (filter (\<lambda>n. folderId n = Some X) (app_notes st))
               \<and> (Y \<noteq> X \<longrightarrow> spec_isLocked (folders (handlePinConfirm p st))
                                       (unlockedFolderIds (handlePinConfirm p st)) Y
                                    = spec_isLocked (folders st) (unlockedFolderIds st) Y))"
proof (intro conjI impI)
  assume "spec_isLocked fs unl X"
  then show "filteredAndSortedNotes lc ns X q sb fs unl = []"
    using nsv by (rule folder_view_locked[rotated])
next
  assume "\<not> spec_isLocked fs unl X"
  then show "mset (filteredAndSortedNotes lc ns X q sb fs unl) = mset (filter (\<lambda>n. folderId n = Some X) ns)"
    using nsv blank by (simp add: folder_view_unlocked mset_sort_by_cmp searchFilter_blank)
next
  assume ex: "\<exists>n\<in>set ns. folderId n = Some X"
  show "filteredAndSortedNotes lc ns X q sb fs unl = [] \<longleftrightarrow> spec_isLocked fs unl X"
  proof (cases "spec_isLocked fs unl X")
    case True
    then show ?thesis using nsv by (simp add: folder_view_locked)
  next
    case False
    have "set (filteredAndSortedNotes lc ns X q sb fs unl) = {n \<in> set ns. folderId n = Some X}"
      using False nsv blank by (simp add: folder_view_unlocked set_sort_by_cmp searchFilter_blank)
    with ex have "set (filteredAndSortedNotes lc ns X q sb fs unl) \<noteq> {}" by auto
    with False show ?thesis by auto
  qed
next
  show "mset (filteredAndSortedNotes lc ns ''all'' q sb fs unl)
           = mset (filter (\<lambda>n. case folderId n of None \<Rightarrow> True
                                 | Some i \<Rightarrow> i = [] \<or> \<not> spec_isLocked fs unl i) ns)"
    using blank by (simp add: all_view mset_sort_by_cmp searchFilter_blank notLockedAway_spec)
next
  assume h: "pinModal st = Some pm \<and> mode pm = EnterPin \<and> modal_folderId pm = X
             \<and> find (\<lambda>f. folder_id f = X) (folders st) = Some folder \<and> pin folder = Some p
             \<and> activeView st = X \<and> searchQuery st = q"
  then have eff: "handlePinConfirm p st
       = st\<lparr>unlockedFolderIds := unlockedFolderIds st @ [X], pinModal := None, modal_pin := []\<rparr>"
    using authenticate_effect[of st pm folder p] by simp
  show "handlePinConfirm p st
       = st\<lparr>unlockedFolderIds := unlockedFolderIds st @ [X], pinModal := None, modal_pin := []\<rparr>"
    by (rule eff)
  show "mset (visibleNotes lc (handlePinConfirm p st)) = mset (filter (\<lambda>n. folderId n = Some X) (app_notes st))"
    using h nsv blank
    by (simp add: eff visibleNotes_def folder_view_unlocked not_locked_after_unlock
        mset_sort_by_cmp searchFilter_blank)
  assume "Y \<noteq> X"
  then show "spec_isLocked (folders (handlePinConfirm p st)) (unlockedFolderIds (handlePinConfirm p st)) Y
                                    = spec_isLocked (folders st) (unlockedFolderIds st) Y"
    by (simp add: eff other_lock_unchanged)
qed

text \<open>
  Emptiness alone does not tell a locked folder: an unlocked folder without notes has an
  empty view although it has no PIN.
\<close>

theorem empty_exactly_when_locked_counterexample:
  "filteredAndSortedNotes sampleLocaleCompare [exampleNote ''M'' False None] ''f1'' [] Newest
      [\<lparr>folder_id = ''f1'', folder_name = ''Work'', folder_timestamp = 1, pin = None\<rparr>] [] = []
   \<and> \<not> spec_isLocked [\<lparr>folder_id = ''f1'', folder_name = ''Work'', folder_timestamp = 1, pin = None\<rparr>] [] ''f1''"
  by (simp add: filteredAndSortedNotes_def lockedFolderIds_def spec_isLocked_def searchFilter_def trim_def
      exampleNote_def)

theorem folder_view_lock_filter_witness:
  "\<not> specialView ''f1'' \<and> list_all js_whitespace ''  ''

   \<and> spec_isLocked (folders lockedViewApp) (unlockedFolderIds lockedViewApp) ''f1''
   \<and> visibleNotes sampleLocaleCompare lockedViewApp = []
   \<and> (\<exists>n\<in>set (app_notes lockedViewApp). folderId n = Some ''f1'')
   \<and> mset (visibleNotes sampleLocaleCompare (handlePinConfirm ''1234'' lockedViewApp))
       = {# exampleNote ''N'' False (Some ''f1'') #}
   \<and> \<not> spec_isLocked (folders lockedViewApp) (unlockedFolderIds (handlePinConfirm ''1234'' lockedViewApp)) ''f1''"
proof -
  have a: "\<not> specialView ''f1''" by (simp add: specialView_def)
  have b: "\<forall>c\<in>set ''''. js_whitespace c" by simp
  have b2: "\<forall>c\<in>set ''  ''. js_whitespace c" by (simp add: js_whitespace_def)
  have c: "spec_isLocked (folders lockedViewApp) (unlockedFolderIds lockedViewApp) ''f1''"
    by (simp add: lockedViewApp_def protectedFolder_def initialApp_def spec_isLocked_def)
  have d: "pinModal lockedViewApp = Some \<lparr>mode = EnterPin, modal_folderId = ''f1'', error = None\<rparr>
     \<and> mode \<lparr>mode = EnterPin, modal_folderId = ''f1'', error = None\<rparr> = EnterPin
     \<and> modal_folderId \<lparr>mode = EnterPin, modal_folderId = ''f1'', error = None\<rparr> = ''f1''
     \<and> find (\<lambda>f. folder_id f = ''f1'') (folders lockedViewApp) = Some protectedFolder \<and> pin protectedFolder = Some ''1234''
     \<and> activeView lockedViewApp = ''f1'' \<and> searchQuery lockedViewApp = []"
    by (simp add: lockedViewApp_def protectedFolder_def initialApp_def)
  note t = folder_view_lock_filter[OF a b, of "folders lockedViewApp" "unlockedFolderIds lockedViewApp"
      sampleLocaleCompare "app_notes lockedViewApp" "sortBy lockedViewApp" lockedViewApp
      "\<lparr>mode = EnterPin, modal_folderId = ''f1'', error = None\<rparr>" protectedFolder "''1234''"]
  note u = t[THEN conjunct2, THEN conjunct2, THEN conjunct2, THEN conjunct2, THEN mp, OF d]
  from t c have e: "filteredAndSortedNotes sampleLocaleCompare (app_notes lockedViewApp) ''f1'' [] (sortBy lockedViewApp)
      (folders lockedViewApp) (unlockedFolderIds lockedViewApp) = []" by blast
  have f: "visibleNotes sampleLocaleCompare lockedViewApp = []"
    using e d by (simp add: visibleNotes_def del: One_nat_def)
  have g: "mset (visibleNotes sampleLocaleCompare (handlePinConfirm ''1234'' lockedViewApp))
       = mset (filter (\<lambda>n. folderId n = Some ''f1'') (app_notes lockedViewApp))"
    by (rule u[THEN conjunct2, THEN conjunct1])
  have h: "filter (\<lambda>n. folderId n = Some ''f1'') (app_notes lockedViewApp) = [exampleNote ''N'' False (Some ''f1'')]"
    by (simp add: lockedViewApp_def initialApp_def exampleNote_def)
  have i: "\<exists>n\<in>set (app_notes lockedViewApp). folderId n = Some ''f1''"
    by (simp add: lockedViewApp_def initialApp_def exampleNote_def)
  have j: "handlePinConfirm ''1234'' lockedViewApp
                 = lockedViewApp\<lparr>unlockedFolderIds := unlockedFolderIds lockedViewApp @ [''f1''], pinModal := None, modal_pin := []\<rparr>"
    by (rule u[THEN conjunct1])
  have k: "\<not> spec_isLocked (folders lockedViewApp) (unlockedFolderIds (handlePinConfirm ''1234'' lockedViewApp)) ''f1''"
    by (simp add: j spec_isLocked_def)
  show ?thesis using a b2 c f g h i k by (simp add: list_all_iff)
qed

text \<open>
  C5. With the PIN dialog open in mode "enter" on a folder that has a PIN, the folder id is
  added to the unlocked ids iff the attempt equals the folder's PIN; a wrong attempt changes
  nothing but the dialog's error text ("Incorrect PIN"): the unlocked ids and the folders,
  with their PINs, stay as they are.
\<close>

theorem authenticate_iff_exact_pin:
  assumes "pinModal st = Some pm" and "mode pm = EnterPin"
      and "find (\<lambda>f. folder_id f = modal_folderId pm) (folders st) = Some folder"
      and "pin folder = Some p"
  shows "(unlockedFolderIds (handlePinConfirm attempt st) = unlockedFolderIds st @ [modal_folderId pm]
            \<longleftrightarrow> attempt = p)
       \<and> (attempt \<noteq> p \<longrightarrow>
            handlePinConfirm attempt st = st\<lparr>pinModal := Some (pm\<lparr>error := Some ''Incorrect PIN''\<rparr>)\<rparr>)
       \<and> (attempt \<noteq> p \<longrightarrow> unlockedFolderIds (handlePinConfirm attempt st) = unlockedFolderIds st)
       \<and> folders (handlePinConfirm attempt st) = folders st"
  using assms by (simp add: handlePinConfirm_def closePinModal_def)

theorem authenticate_iff_exact_pin_witness:
  "unlockedFolderIds (handlePinConfirm ''1234'' enterPinApp) = [''f1'']
   \<and> unlockedFolderIds (handlePinConfirm ''1235'' enterPinApp) = []
   \<and> map pin (folders (handlePinConfirm ''1235'' enterPinApp)) = [Some ''1234'']"
  using authenticate_iff_exact_pin[of enterPinApp "\<lparr>mode = EnterPin, modal_folderId = ''f1'', error = None\<rparr>"
      "\<lparr>folder_id = ''f1'', folder_name = ''Work'', folder_timestamp = 1, pin = Some ''1234''\<rparr>" "''1234''" "''1234''"]
    authenticate_iff_exact_pin[of enterPinApp "\<lparr>mode = EnterPin, modal_folderId = ''f1'', error = None\<rparr>"
      "\<lparr>folder_id = ''f1'', folder_name = ''Work'', folder_timestamp = 1, pin = Some ''1234''\<rparr>" "''1234''" "''1235''"]
  by (simp add: enterPinApp_def initialApp_def)

section \<open>Sort order\<close>

lemma scenario_sorted:
  assumes "0 < lc ''Banana'' ''apple''"
  shows "sort_by_cmp (compareNotes lc Alphabetical) scenarioNotes
         = [exampleNote ''Cherry'' True None, exampleNote ''apple'' False None, exampleNote ''Banana'' False None]"
  using assms
  by (simp add: scenarioNotes_def compareNotes_def exampleNote_def truthy_bool_def)

lemma all_view_no_folders:
  "filteredAndSortedNotes lc ns ''all'' [] sb [] [] = sort_by_cmp (compareNotes lc sb) ns"
  by (simp add: filteredAndSortedNotes_def lockedFolderIds_def notLockedAway_def searchFilter_def trim_def
      split: option.splits)

lemma lex_compare_total: "lex_compare xs ys \<le> 0 \<or> lex_compare ys xs \<le> 0"
  by (induction xs ys rule: lex_compare.induct) auto

lemma lex_compare_trans:
  "lex_compare xs ys \<le> 0 \<Longrightarrow> lex_compare ys zs \<le> 0 \<Longrightarrow> lex_compare xs zs \<le> 0"
proof (induction xs ys arbitrary: zs rule: lex_compare.induct)
  case 1
  then show ?case by simp
next
  case (2 y ys)
  then show ?case by (cases zs) simp_all
next
  case (3 x xs)
  then show ?case by simp
next
  case (4 x xs y ys)
  show ?case
  proof (cases zs)
    case Nil
    with "4.prems" show ?thesis by simp
  next
    case (Cons z zs')
    from "4.prems"(1) have xy: "x \<le> y" by (simp split: if_splits)
    from "4.prems"(2) Cons have yz: "y \<le> z" by (simp split: if_splits)
    show ?thesis
    proof (cases "x < z")
      case True
      then show ?thesis using Cons by simp
    next
      case False
      with xy yz have e: "x = y" "y = z" by auto
      from "4.prems"(1) e have a: "lex_compare xs ys \<le> 0" by simp
      from "4.prems"(2) e Cons have b: "lex_compare ys zs' \<le> 0" by simp
      have "lex_compare xs zs' \<le> 0" using "4.IH" e a b by simp
      then show ?thesis using Cons e by simp
    qed
  qed
qed

lemma sampleLocaleCompare_consistent: "consistent sampleLocaleCompare"
  unfolding consistent_def sampleLocaleCompare_def
  using lex_compare_total lex_compare_trans by blast

lemma consistent_total: "consistent cmp \<Longrightarrow> cmp x y \<le> 0 \<or> cmp y x \<le> 0"
  unfolding consistent_def by blast

lemma consistent_trans: "consistent cmp \<Longrightarrow> cmp x y \<le> 0 \<Longrightarrow> cmp y z \<le> 0 \<Longrightarrow> cmp x z \<le> 0"
  unfolding consistent_def by blast

lemma place_by_ordered:
  assumes c: "consistent cmp" and s: "sorted_wrt (\<lambda>a b. cmp a b \<le> 0) ys"
  shows "sorted_wrt (\<lambda>a b. cmp a b \<le> 0) (place_by cmp x ys)"
  using s
proof (induction ys)
  case Nil
  then show ?case by simp
next
  case (Cons y ys)
  show ?case
  proof (cases "cmp x y \<le> 0")
    case True
    have "cmp x z \<le> 0" if "z \<in> set ys" for z
    proof -
      have "cmp y z \<le> 0" using Cons.prems that by simp
      with consistent_trans[OF c True] show ?thesis by simp
    qed
    with True Cons.prems show ?thesis by simp
  next
    case False
    with consistent_total[OF c, of x y] have "cmp y x \<le> 0" by simp
    with False Cons show ?thesis by (simp add: set_place_by)
  qed
qed

lemma sort_by_cmp_ordered:
  "consistent cmp \<Longrightarrow> sorted_wrt (\<lambda>a b. cmp a b \<le> 0) (sort_by_cmp cmp xs)"
  by (induction xs) (simp_all add: place_by_ordered)

lemma compareNotes_consistent:
  assumes "consistent lc"
  shows "consistent (compareNotes lc sb)"
proof -
  have t: "lc x y \<le> 0 \<or> lc y x \<le> 0" for x y using assms by (rule consistent_total)
  have tr: "lc x y \<le> 0 \<Longrightarrow> lc y z \<le> 0 \<Longrightarrow> lc x z \<le> 0" for x y z
    using assms by (rule consistent_trans)
  have 1: "compareNotes lc sb a b \<le> 0 \<or> compareNotes lc sb b a \<le> 0" for a b
    using t[of "title a" "title b"] by (cases sb) (auto simp: compareNotes_def)
  have 2: "compareNotes lc sb a d \<le> 0" if "compareNotes lc sb a b \<le> 0" "compareNotes lc sb b d \<le> 0" for a b d
    using that tr[of "title a" "title b" "title d"]
    by (cases sb; cases "truthy_bool (isPinned a)"; cases "truthy_bool (isPinned b)";
        cases "truthy_bool (isPinned d)"; simp add: compareNotes_def)
  show ?thesis unfolding consistent_def using 1 2 by blast
qed

lemma visible_ordered:
  assumes "consistent lc"
  shows "sorted_wrt (\<lambda>a b. compareNotes lc sb a b \<le> 0) (filteredAndSortedNotes lc ns v q sb fs unl)"
  using assms
  by (simp add: filteredAndSortedNotes_def Let_def sort_by_cmp_ordered compareNotes_consistent)

lemma alphabetical_within_partition:
  assumes c: "consistent lc"
      and ij: "i < j" "j < length (filteredAndSortedNotes lc ns v q Alphabetical fs unl)"
      and same: "truthy_bool (isPinned (filteredAndSortedNotes lc ns v q Alphabetical fs unl ! i))
                 = truthy_bool (isPinned (filteredAndSortedNotes lc ns v q Alphabetical fs unl ! j))"
  shows "lc (title (filteredAndSortedNotes lc ns v q Alphabetical fs unl ! i))
            (title (filteredAndSortedNotes lc ns v q Alphabetical fs unl ! j)) \<le> 0"
proof -
  let ?r = "filteredAndSortedNotes lc ns v q Alphabetical fs unl"
  have "sorted_wrt (\<lambda>a b. compareNotes lc Alphabetical a b \<le> 0) ?r"
    using c by (rule visible_ordered)
  then have "compareNotes lc Alphabetical (?r ! i) (?r ! j) \<le> 0"
    using ij by (rule sorted_wrt_nth_less)
  then show ?thesis using same by (simp add: compareNotes_def)
qed

text \<open>
  C6. In the visible list, under every sort order, view and query, every pinned note stands
  before every unpinned note. Between two notes of the same partition the alphabetical
  comparator is \<open>localeCompare\<close> on the titles, and for a consistent collation the
  alphabetical list is ordered by it inside each partition. For the titles Banana, apple,
  Cherry with Cherry pinned, a collation that puts apple before Banana gives the order
  Cherry, apple, Banana.
\<close>

theorem pinned_precede_unpinned:
  assumes "0 < lc ''Banana'' ''apple''" and "lc ''apple'' ''Banana'' < 0"
  shows "(\<forall>i j. i < length (filteredAndSortedNotes lc ns v q sb fs unl)
              \<and> j < length (filteredAndSortedNotes lc ns v q sb fs unl)
              \<and> truthy_bool (isPinned (filteredAndSortedNotes lc ns v q sb fs unl ! i))
              \<and> \<not> truthy_bool (isPinned (filteredAndSortedNotes lc ns v q sb fs unl ! j))
            \<longrightarrow> i < j)
       \<and> (truthy_bool (isPinned a) = truthy_bool (isPinned b)
            \<longrightarrow> compareNotes lc Alphabetical a b = lc (title a) (title b))
       \<and> (consistent lc \<longrightarrow>
            (\<forall>i j. i < j \<and> j < length (filteredAndSortedNotes lc ns v q Alphabetical fs unl)
                \<and> truthy_bool (isPinned (filteredAndSortedNotes lc ns v q Alphabetical fs unl ! i))
                  = truthy_bool (isPinned (filteredAndSortedNotes lc ns v q Alphabetical fs unl ! j))
              \<longrightarrow> lc (title (filteredAndSortedNotes lc ns v q Alphabetical fs unl ! i))
                     (title (filteredAndSortedNotes lc ns v q Alphabetical fs unl ! j)) \<le> 0))
       \<and> map title (filteredAndSortedNotes lc scenarioNotes ''all'' [] Alphabetical [] [])
           = [''Cherry'', ''apple'', ''Banana'']"
proof (intro conjI allI impI)
  fix i j
  let ?r = "filteredAndSortedNotes lc ns v q sb fs unl"
  assume h: "i < length ?r \<and> j < length ?r \<and> truthy_bool (isPinned (?r ! i))
             \<and> \<not> truthy_bool (isPinned (?r ! j))"
  have srt: "sorted_wrt (\<lambda>a b. truthy_bool (isPinned b) \<longrightarrow> truthy_bool (isPinned a)) ?r"
    by (rule visible_pinned_sorted)
  show "i < j"
  proof (rule ccontr)
    assume "\<not> i < j"
    then consider "j = i" | "j < i" by linarith
    then show False
    proof cases
      case 1
      with h show False by simp
    next
      case 2
      from h have "i < length ?r" by simp
      with srt 2 have "truthy_bool (isPinned (?r ! i)) \<longrightarrow> truthy_bool (isPinned (?r ! j))"
        by (rule sorted_wrt_nth_less)
      with h show False by simp
    qed
  qed
next
  assume "truthy_bool (isPinned a) = truthy_bool (isPinned b)"
  then show "compareNotes lc Alphabetical a b = lc (title a) (title b)"
    by (simp add: compareNotes_def)
next
  fix i j
  let ?r = "filteredAndSortedNotes lc ns v q Alphabetical fs unl"
  assume c: "consistent lc"
  assume h: "i < j \<and> j < length ?r
             \<and> truthy_bool (isPinned (?r ! i)) = truthy_bool (isPinned (?r ! j))"
  then show "lc (title (?r ! i)) (title (?r ! j)) \<le> 0"
    using alphabetical_within_partition[OF c, of i j ns v q fs unl] by simp
next
  show "map title (filteredAndSortedNotes lc scenarioNotes ''all'' [] Alphabetical [] [])
           = [''Cherry'', ''apple'', ''Banana'']"
    using assms(1) by (simp add: all_view_no_folders scenario_sorted exampleNote_def)
qed

theorem pinned_precede_unpinned_witness:
  "0 < sampleLocaleCompare ''Banana'' ''apple'' \<and> sampleLocaleCompare ''apple'' ''Banana'' < 0
   \<and> consistent sampleLocaleCompare
   \<and> map title (filteredAndSortedNotes sampleLocaleCompare scenarioNotes ''all'' [] Alphabetical [] [])
           = [''Cherry'', ''apple'', ''Banana'']"
proof -
  have a: "0 < sampleLocaleCompare ''Banana'' ''apple''"
    by (simp add: sampleLocaleCompare_def toLowerCase_def lower_char_def)
  have b: "sampleLocaleCompare ''apple'' ''Banana'' < 0"
    by (simp add: sampleLocaleCompare_def toLowerCase_def lower_char_def)
  show ?thesis using a b sampleLocaleCompare_consistent pinned_precede_unpinned[OF a b] by simp
qed

text \<open>
  C10. A search query that is empty or made of whitespace only filters nothing: for every
  notes list, view and sort order the visible list is the one of the empty query.
\<close>

theorem blank_query_no_filter:
  assumes "\<forall>c\<in>set q. js_whitespace c"
  shows "filteredAndSortedNotes lc ns v q sb fs unl = filteredAndSortedNotes lc ns v [] sb fs unl"
  using assms by (simp add: filteredAndSortedNotes_def searchFilter_blank)

theorem blank_query_no_filter_witness:
  "list_all js_whitespace ''  ''
   \<and> filteredAndSortedNotes sampleLocaleCompare scenarioNotes ''all'' ''  '' Alphabetical [] []
     = filteredAndSortedNotes sampleLocaleCompare scenarioNotes ''all'' [] Alphabetical [] []"
proof -
  have a: "\<forall>c\<in>set ''  ''. js_whitespace c" by (simp add: js_whitespace_def)
  show ?thesis using a blank_query_no_filter[OF a] by (simp add: list_all_iff)
qed

section \<open>Recorder\<close>

lemma recordingApp_eval:
  "recordingApp = initialApp\<lparr>liveStreams := [1],
       mediaRecorderRef := Some \<lparr>rec_stream = 1, rec_mimeType = ''audio/webm'', rec_activeView = ''all'',
                                 rec_recording = True\<rparr>,
       chunksRef := [[1, 2, 3]], stream := Some 1, status := RECORDING,
       startTimeRef := Some 1000, timer := 0, timerRef := True\<rparr>"
  by (simp add: recordingApp_def ondataavailable_def startRecording_def startRecording_resume_def goodEnv_def initialApp_def
     getSupportedMimeType_def requestWakeLock_def Let_def)

lemma doubleStart_run: "run doubleStartEvents initialApp = recordingApp\<lparr>pendingStarts := [''all'']\<rparr>"
  by (simp add: doubleStartEvents_def click_def recorderControls_def startRecording_begin_def
      userMediaSettled_def recordingApp_def startRecording_def startRecording_resume_def
      ondataavailable_def goodEnv_def initialApp_def getSupportedMimeType_def requestWakeLock_def
      Let_def)

lemma second_settle_eval:
  "userMediaSettled 0 (goodEnv 2 5000) (recordingApp\<lparr>pendingStarts := [''all'']\<rparr>)
     = recordingApp\<lparr>pendingStarts := [], liveStreams := [1, 2],
         mediaRecorderRef := Some \<lparr>rec_stream = 2, rec_mimeType = ''audio/webm'',
                                   rec_activeView = ''all'', rec_recording = True\<rparr>,
         chunksRef := [], stream := Some 2, status := RECORDING,
         startTimeRef := Some 5000, timer := 0, timerRef := True\<rparr>"
  by (simp add: recordingApp_eval userMediaSettled_def startRecording_resume_def goodEnv_def
      initialApp_def getSupportedMimeType_def requestWakeLock_def Let_def)

text \<open>
  C2. A start while the status is \<open>RECORDING\<close> should change nothing: no second session,
  no new device, the recorder state as it was. The program does not keep to that. The start
  button is clicked twice while the first microphone request is pending (the status is
  still \<open>IDLE\<close>, so the button is still rendered); the first request settles with stream
  1, the status becomes \<open>RECORDING\<close> and a chunk is buffered; a further click on start is
  now ignored, but when the second request settles, the rest of \<open>startRecording\<close> runs in
  status \<open>RECORDING\<close>: stream 2 is live beside stream 1, the recorder of stream 1 is
  replaced by one of stream 2 and the buffered chunk is gone.
\<close>

theorem second_start_while_recording:
  "status (run doubleStartEvents initialApp) = RECORDING
   \<and> pendingStarts (run doubleStartEvents initialApp) = [''all'']
   \<and> liveStreams (run doubleStartEvents initialApp) = [1]
   \<and> map_option rec_stream (mediaRecorderRef (run doubleStartEvents initialApp)) = Some 1
   \<and> chunksRef (run doubleStartEvents initialApp) = [[1, 2, 3]]
   \<and> step (Click StartButton) (run doubleStartEvents initialApp) = run doubleStartEvents initialApp
   \<and> status (step (UserMediaSettled 0 (goodEnv 2 5000)) (run doubleStartEvents initialApp)) = RECORDING
   \<and> liveStreams (step (UserMediaSettled 0 (goodEnv 2 5000)) (run doubleStartEvents initialApp)) = [1, 2]
   \<and> map_option rec_stream
         (mediaRecorderRef (step (UserMediaSettled 0 (goodEnv 2 5000)) (run doubleStartEvents initialApp)))
       = Some 2
   \<and> chunksRef (step (UserMediaSettled 0 (goodEnv 2 5000)) (run doubleStartEvents initialApp)) = []"
proof -
  have a: "status (recordingApp\<lparr>pendingStarts := [''all'']\<rparr>) = RECORDING"
    "liveStreams (recordingApp\<lparr>pendingStarts := [''all'']\<rparr>) = [1]"
    "map_option rec_stream (mediaRecorderRef (recordingApp\<lparr>pendingStarts := [''all'']\<rparr>)) = Some 1"
    "chunksRef (recordingApp\<lparr>pendingStarts := [''all'']\<rparr>) = [[1, 2, 3]]"
    by (simp_all add: recordingApp_eval)
  have c: "click StartButton (recordingApp\<lparr>pendingStarts := [''all'']\<rparr>)
           = recordingApp\<lparr>pendingStarts := [''all'']\<rparr>"
    by (simp add: click_def recorderControls_def a(1))
  show ?thesis
    unfolding doubleStart_run step.simps second_settle_eval
    using a c by simp
qed

text \<open>
  The same on the function alone: called in a state of status \<open>RECORDING\<close>,
  \<open>startRecording\<close> acquires a second stream, replaces the recorder and empties the chunk
  buffer.
\<close>

lemma startRecording_while_recording:
  "status recordingApp = RECORDING
   \<and> liveStreams recordingApp = [1]
   \<and> liveStreams (startRecording (goodEnv 2 5000) recordingApp) = [1, 2]
   \<and> map_option rec_stream (mediaRecorderRef (startRecording (goodEnv 2 5000) recordingApp)) = Some 2
   \<and> chunksRef recordingApp = [[1, 2, 3]]
   \<and> chunksRef (startRecording (goodEnv 2 5000) recordingApp) = []"
proof -
  have e: "startRecording (goodEnv 2 5000) recordingApp
       = recordingApp\<lparr>liveStreams := [1, 2],
       mediaRecorderRef := Some \<lparr>rec_stream = 2, rec_mimeType = ''audio/webm'', rec_activeView = ''all'',
                                 rec_recording = True\<rparr>,
       chunksRef := [], stream := Some 2, status := RECORDING,
       startTimeRef := Some 5000, timer := 0, timerRef := True\<rparr>"
    by (simp add: recordingApp_eval startRecording_def startRecording_resume_def goodEnv_def
        initialApp_def getSupportedMimeType_def requestWakeLock_def Let_def)
  show ?thesis
    by (simp add: e) (simp add: recordingApp_eval initialApp_def)
qed

section \<open>Deleting a note\<close>

lemma filter_out_one:
  assumes "distinct (map f xs)" and "i \<in> f ` set xs"
  shows "length (filter (\<lambda>n. f n \<noteq> i) xs) + 1 = length xs"
  using assms
proof (induction xs)
  case Nil
  then show ?case by simp
next
  case (Cons x xs)
  show ?case
  proof (cases "f x = i")
    case True
    with Cons.prems have "i \<notin> f ` set xs" by auto
    then have "filter (\<lambda>n. f n \<noteq> i) xs = xs" by (auto simp: filter_id_conv)
    with True show ?thesis by simp
  next
    case False
    with Cons show ?thesis by auto
  qed
qed

text \<open>
  When the blob delete resolves: for a note id present in a store with unique ids, a
  confirmed delete removes exactly that one entry and issues exactly one blob delete, for
  that id.
\<close>

lemma resolved_delete_removes_one:
  assumes present: "i \<in> note_id ` set (app_notes st)"
      and uniq: "distinct (map note_id (app_notes st))"
  shows "app_notes (deleteNote True None i st) = filter (\<lambda>n. note_id n \<noteq> i) (app_notes st)
       \<and> length (app_notes (deleteNote True None i st)) + 1 = length (app_notes st)
       \<and> i \<notin> note_id ` set (app_notes (deleteNote True None i st))
       \<and> blobOps (deleteNote True None i st) = blobOps st @ [DeleteBlob i]
       \<and> blobStore (deleteNote True None i st) i = None"
proof -
  have n: "app_notes (deleteNote True None i st) = filter (\<lambda>n. note_id n \<noteq> i) (app_notes st)"
    by (simp add: deleteNote_def deleteAudioBlob_def)
  have l: "length (filter (\<lambda>n. note_id n \<noteq> i) (app_notes st)) + 1 = length (app_notes st)"
    using uniq present by (rule filter_out_one)
  have o: "blobOps (deleteNote True None i st) = blobOps st @ [DeleteBlob i]"
    by (simp add: deleteNote_def deleteAudioBlob_def)
  have b: "blobStore (deleteNote True None i st) i = None"
    by (simp add: deleteNote_def deleteAudioBlob_def)
  show ?thesis using n l o b by auto
qed


section \<open>Pipeline outcomes\<close>

lemma onloadend_failure:
  "onloadend True None tnow job st
     = st\<lparr>alerts := alerts st @ [''Transcription failed: Failed to process audio. Please try again.''],
          status := IDLE, timer := 0\<rparr>"
  by (simp add: onloadend_def transcribeAudio_def alert_def)

lemma onstop_failure:
  "onstop recorder tnow i None True None tnow2 st
     = st\<lparr>blobStore := (blobStore st)(i := Some \<lparr>blob_data = concat (chunksRef st), blob_type = rec_mimeType recorder\<rparr>),
          blobOps := blobOps st @ [PutBlob i],
          alerts := alerts st @ [''Transcription failed: Failed to process audio. Please try again.''],
          status := IDLE, timer := 0\<rparr>"
  by (simp add: onstop_def onstop_begin_def onstop_persist_def saveAudioBlob_def onloadend_failure)

text \<open>
  C7. When the blob was persisted under the note id and the transcription then fails, the
  notes are unchanged (so no note with that id appears), the blob is in the store under the
  id, the only blob operation issued is the put, and the status is back to \<open>IDLE\<close>. The last
  stretch alone, run in any state, leaves notes and blob store untouched and sets \<open>IDLE\<close>.
\<close>

theorem transcription_failure_keeps_blob:
  "app_notes (onstop recorder tnow i None True None tnow2 st) = app_notes st
   \<and> blobStore (onstop recorder tnow i None True None tnow2 st) i
       = Some \<lparr>blob_data = concat (chunksRef st), blob_type = rec_mimeType recorder\<rparr>
   \<and> blobOps (onstop recorder tnow i None True None tnow2 st) = blobOps st @ [PutBlob i]
   \<and> status (onstop recorder tnow i None True None tnow2 st) = IDLE
   \<and> (i \<notin> note_id ` set (app_notes st)
        \<longrightarrow> i \<notin> note_id ` set (app_notes (onstop recorder tnow i None True None tnow2 st)))
   \<and> app_notes (onloadend True None tnow2 job st2) = app_notes st2
   \<and> blobStore (onloadend True None tnow2 job st2) = blobStore st2
   \<and> blobOps (onloadend True None tnow2 job st2) = blobOps st2
   \<and> status (onloadend True None tnow2 job st2) = IDLE"
  by (simp add: onstop_failure onloadend_failure)

theorem transcription_failure_keeps_blob_witness:
  "''abc123'' \<notin> note_id ` set (app_notes (stopRecording recordingApp))
   \<and> app_notes (onstop stoppedRecorder 4000 ''abc123'' None True None 9000 (stopRecording recordingApp)) = []
   \<and> blobStore (onstop stoppedRecorder 4000 ''abc123'' None True None 9000 (stopRecording recordingApp)) ''abc123''
       = Some \<lparr>blob_data = [1, 2, 3], blob_type = ''audio/webm''\<rparr>
   \<and> blobOps (onstop stoppedRecorder 4000 ''abc123'' None True None 9000 (stopRecording recordingApp))
       = [PutBlob ''abc123'']
   \<and> status (onstop stoppedRecorder 4000 ''abc123'' None True None 9000 (stopRecording recordingApp)) = IDLE"
proof -
  have s: "stopRecording recordingApp = recordingApp\<lparr>mediaRecorderRef := Some stoppedRecorder,
             timerRef := False, liveStreams := [], stream := None\<rparr>"
    by (simp add: stopRecording_def recordingApp_eval stopTracks_def releaseWakeLock_def
        stoppedRecorder_def initialApp_def)
  have a: "app_notes (stopRecording recordingApp) = []" "chunksRef (stopRecording recordingApp) = [[1, 2, 3]]"
    "blobOps (stopRecording recordingApp) = []" "rec_mimeType stoppedRecorder = ''audio/webm''"
    by (simp_all add: s) (simp_all add: recordingApp_eval initialApp_def stoppedRecorder_def)
  show ?thesis
    using transcription_failure_keeps_blob[of stoppedRecorder 4000 "''abc123''" 9000 "stopRecording recordingApp"]
    by (simp add: a)
qed





section \<open>PINs\<close>

lemma pin_onChange_digits: "list_all is_digit cur \<Longrightarrow> list_all is_digit (pin_onChange v cur)"
  by (simp add: pin_onChange_def Let_def list_all_iff)

lemma handleSubmit_valid:
  "list_all is_digit cur \<Longrightarrow> handleSubmit cur = Some p \<Longrightarrow> valid_pin p \<and> p = cur"
  by (auto simp: handleSubmit_def valid_pin_def split: if_splits)

lemma pins_ok_set_pin:
  "pins_ok fs \<Longrightarrow> valid_pin p \<Longrightarrow> pins_ok (map (\<lambda>f. if folder_id f = i then f\<lparr>pin := Some p\<rparr> else f) fs)"
  by (induction fs) (auto simp: pins_ok_def)

lemma pins_ok_clear_pin:
  "pins_ok fs \<Longrightarrow> pins_ok (map (\<lambda>f. if folder_id f = i then f\<lparr>pin := None\<rparr> else f) fs)"
  by (induction fs) (auto simp: pins_ok_def)

lemma pins_ok_filter: "pins_ok fs \<Longrightarrow> pins_ok (filter P fs)"
  by (induction fs) (auto simp: pins_ok_def)

lemma handlePinConfirm_inv: "pin_inv st \<Longrightarrow> valid_pin p \<Longrightarrow> pin_inv (handlePinConfirm p st)"
  by (auto simp: pin_inv_def handlePinConfirm_def closePinModal_def pins_ok_set_pin
      split: option.splits)

lemma handleFolderClick_inv: "pin_inv st \<Longrightarrow> pin_inv (handleFolderClick f st)"
  by (simp add: pin_inv_def handleFolderClick_def Let_def)

lemma toggleFolderLock_inv: "pin_inv st \<Longrightarrow> pin_inv (toggleFolderLock c f st)"
  by (simp add: pin_inv_def toggleFolderLock_def pins_ok_clear_pin)

lemma deleteFolder_inv: "pin_inv st \<Longrightarrow> pin_inv (deleteFolder c i st)"
  by (simp add: pin_inv_def deleteFolder_def pins_ok_filter)

lemma createFolder_inv: "pin_inv st \<Longrightarrow> pin_inv (createFolder i t st)"
  by (simp add: pin_inv_def createFolder_def pins_ok_def)

lemma unlockButton_inv: "pin_inv st \<Longrightarrow> pin_inv (unlockButton st)"
  by (simp add: pin_inv_def unlockButton_def split: option.splits)

lemma pinCancel_inv: "pin_inv st \<Longrightarrow> pin_inv (pinCancel st)"
  by (simp add: pin_inv_def pinCancel_def closePinModal_def split: option.splits)

lemma startRecording_resume_folders:
  "folders (startRecording_resume v env st) = folders st
   \<and> modal_pin (startRecording_resume v env st) = modal_pin st"
  by (simp add: startRecording_resume_def Let_def alert_def stopTracks_def requestWakeLock_def
      split: sum.splits prod.splits option.splits bool.splits)

lemma stopRecording_folders:
  "folders (stopRecording st) = folders st \<and> modal_pin (stopRecording st) = modal_pin st"
  by (simp add: stopRecording_def Let_def stopTracks_def releaseWakeLock_def split: option.splits)

lemma click_inv: "pin_inv st \<Longrightarrow> pin_inv (click c st)"
  by (simp add: pin_inv_def click_def startRecording_begin_def stopRecording_folders split: Control.splits)

lemma userMediaSettled_inv: "pin_inv st \<Longrightarrow> pin_inv (userMediaSettled k env st)"
  by (simp add: pin_inv_def userMediaSettled_def startRecording_resume_folders)

lemma onstop_folders:
  "folders (onstop r t i se ro a t2 st) = folders st \<and> modal_pin (onstop r t i se ro a t2 st) = modal_pin st"
  by (simp add: onstop_def onstop_begin_def onstop_persist_def saveAudioBlob_def onloadend_def
      transcribeAudio_def alert_def Let_def split: option.splits)

lemma deleteNote_folders:
  "folders (deleteNote c sf i st) = folders st \<and> modal_pin (deleteNote c sf i st) = modal_pin st"
  by (simp add: deleteNote_def deleteAudioBlob_def split: option.splits)

lemma step_inv: "pin_inv st \<Longrightarrow> pin_inv (step e st)"
proof (cases e)
  case (PinChange v)
  then show "pin_inv st \<Longrightarrow> ?thesis" by (simp add: pin_inv_def pin_onChange_digits)
next
  case PinSubmit
  assume i: "pin_inv st"
  show ?thesis
  proof (cases "handleSubmit (modal_pin st)")
    case None
    with PinSubmit i show ?thesis by simp
  next
    case (Some p)
    with i have "valid_pin p" using handleSubmit_valid[of "modal_pin st" p] by (auto simp: pin_inv_def)
    with PinSubmit Some i show ?thesis by (simp add: handlePinConfirm_inv)
  qed
next
  case (Click c)
  then show "pin_inv st \<Longrightarrow> ?thesis" by (simp add: click_inv)
next
  case (UserMediaSettled k env)
  then show "pin_inv st \<Longrightarrow> ?thesis" by (simp add: userMediaSettled_inv)
next
  case (RecorderStopped r t i se ro a t2)
  then show "pin_inv st \<Longrightarrow> ?thesis" by (simp add: pin_inv_def onstop_folders)
next
  case (DeleteNote c sf i)
  then show "pin_inv st \<Longrightarrow> ?thesis" by (simp add: pin_inv_def deleteNote_folders)
qed (simp_all add: handleFolderClick_inv toggleFolderLock_inv deleteFolder_inv createFolder_inv
      unlockButton_inv pinCancel_inv, simp_all add: pin_inv_def ondataavailable_def updateNote_def)

lemma run_inv: "pin_inv st \<Longrightarrow> pin_inv (run es st)"
  by (induction es arbitrary: st) (simp_all add: step_inv)

lemma pins_ok_iff:
  "pins_ok fs \<longleftrightarrow> (\<forall>f\<in>set fs. \<forall>p. pin f = Some p \<longrightarrow> length p = 4 \<and> (\<forall>c\<in>set p. is_digit c))"
  by (auto simp: pins_ok_def valid_pin_def list_all_iff split: option.splits)

lemma set_pin_stores:
  assumes "pinModal st = Some pm" and "mode pm = SetPin"
  shows "folders (handlePinConfirm p st)
         = map (\<lambda>f. if folder_id f = modal_folderId pm then f\<lparr>pin := Some p\<rparr> else f) (folders st)"
  using assms by (simp add: handlePinConfirm_def closePinModal_def)

lemma is_digit_chars: "is_digit c \<longleftrightarrow> c \<in> set ''0123456789''"
  by (simp only: is_digit_def)

text \<open>
  C9. From a state whose folders have four-digit PINs (a first start, or what an earlier
  session stored), after any sequence of events every PIN present is exactly four
  characters, each a digit. The PIN entry keeps digits only, the dialog confirms only a
  string of length 4, and setting a PIN stores the confirmed string in the folders with the
  dialog's folder id and leaves the other folders' PINs alone.
\<close>

theorem pin_is_four_digits:
  assumes "pins_ok (folders s0)" and "list_all is_digit (modal_pin s0)"
  shows "(\<forall>f\<in>set (folders (run evs s0)). \<forall>p. pin f = Some p \<longrightarrow>
            length p = 4 \<and> (\<forall>c\<in>set p. c \<in> set ''0123456789''))
       \<and> (\<forall>c\<in>set (pin_onChange v (modal_pin (run evs s0))). c \<in> set ''0123456789'')
       \<and> (handleSubmit cur = Some q \<longrightarrow> length q = 4 \<and> q = cur)
       \<and> (pinModal st = Some pm \<and> mode pm = SetPin \<longrightarrow>
            (\<forall>k < length (folders st).
               pin (folders (handlePinConfirm p st) ! k)
                 = (if folder_id (folders st ! k) = modal_folderId pm then Some p
                    else pin (folders st ! k))))"
proof (intro conjI)
  have "pin_inv s0" using assms by (simp add: pin_inv_def)
  then have inv: "pin_inv (run evs s0)" by (rule run_inv)
  then show "\<forall>f\<in>set (folders (run evs s0)). \<forall>p. pin f = Some p \<longrightarrow>
            length p = 4 \<and> (\<forall>c\<in>set p. c \<in> set ''0123456789'')"
    unfolding pin_inv_def pins_ok_iff is_digit_chars by blast
  from inv have "list_all is_digit (pin_onChange v (modal_pin (run evs s0)))"
    by (simp add: pin_inv_def pin_onChange_digits)
  then show "\<forall>c\<in>set (pin_onChange v (modal_pin (run evs s0))). c \<in> set ''0123456789''"
    unfolding list_all_iff is_digit_chars .
  show "handleSubmit cur = Some q \<longrightarrow> length q = 4 \<and> q = cur"
    by (auto simp: handleSubmit_def split: if_splits)
  show "pinModal st = Some pm \<and> mode pm = SetPin \<longrightarrow>
            (\<forall>k < length (folders st).
               pin (folders (handlePinConfirm p st) ! k)
                 = (if folder_id (folders st ! k) = modal_folderId pm then Some p
                    else pin (folders st ! k)))"
    by (auto simp: set_pin_stores)
qed

lemma setPinEvents_run:
  "folders (run setPinEvents initialApp)
     = [\<lparr>folder_id = ''f1'', folder_name = ''Work'', folder_timestamp = 5, pin = Some ''1234''\<rparr>]"
  by (simp add: setPinEvents_def initialApp_def createFolder_def trim_def js_whitespace_def
      toggleFolderLock_def truthy_str_def pin_onChange_def is_digit_def handleSubmit_def
      handlePinConfirm_def closePinModal_def)

theorem pin_is_four_digits_witness:
  "pins_ok (folders initialApp) \<and> list_all is_digit (modal_pin initialApp)
   \<and> map pin (folders (run setPinEvents initialApp)) = [Some ''1234'']
   \<and> length ''1234'' = 4 \<and> list_all is_digit ''1234''"
proof -
  have a: "pins_ok (folders initialApp)" by (simp add: initialApp_def pins_ok_def)
  have b: "list_all is_digit (modal_pin initialApp)" by (simp add: initialApp_def)
  have m: "\<lparr>folder_id = ''f1'', folder_name = ''Work'', folder_timestamp = 5, pin = Some ''1234''\<rparr>
      \<in> set (folders (run setPinEvents initialApp))"
    by (simp add: setPinEvents_run)
  from pin_is_four_digits[OF a b, of setPinEvents] m
  have "length ''1234'' = 4 \<and> (\<forall>c\<in>set ''1234''. c \<in> set ''0123456789'')"
    by (metis Folder.select_convs(4))
  then have "length ''1234'' = 4 \<and> list_all is_digit ''1234''"
    unfolding list_all_iff is_digit_chars .
  then show ?thesis using a b by (simp add: setPinEvents_run)
qed

section \<open>Audio exclusion\<close>

lemma stopTts_silent: "cardExclusive c \<Longrightarrow> soundingSources (stopTts c) = []"
  by (auto simp: cardExclusive_def stopTts_def Let_def split: option.splits if_splits)

lemma cardStep_exclusive: "cardExclusive c \<Longrightarrow> cardExclusive (cardStep a c)"
proof (cases a)
  case (TogglePlay playOk)
  then show "cardExclusive c \<Longrightarrow> ?thesis"
    by (auto simp: cardExclusive_def togglePlay_def stopTts_def Let_def split: option.splits if_splits)
next
  case (ReadAloud sect speech)
  then show "cardExclusive c \<Longrightarrow> ?thesis"
    by (auto simp: cardExclusive_def handleReadAloud_def handleReadAloud_begin_def
        handleReadAloud_finish_def stopTts_def Let_def split: option.splits if_splits)
next
  case (SourceEnded source)
  then show "cardExclusive c \<Longrightarrow> ?thesis"
    by (auto simp: cardExclusive_def source_onended_def split: if_splits)
next
  case AudioEnded
  then show "cardExclusive c \<Longrightarrow> ?thesis"
    by (auto simp: cardExclusive_def audio_onEnded_def split: if_splits)
qed

lemma exclusive_audible: "cardExclusive c \<Longrightarrow> audible c \<le> 1"
  by (auto simp: cardExclusive_def audible_def split: if_splits)

lemma begin_silent:
  assumes "cardExclusive c"
  shows "\<not> audioSounding (snd (handleReadAloud_begin sect c))
       \<and> soundingSources (snd (handleReadAloud_begin sect c)) = []"
  using assms
  by (auto simp: cardExclusive_def handleReadAloud_begin_def stopTts_def Let_def
      split: option.splits if_splits)

lemma play_stops_tts:
  assumes "cardExclusive c" and "\<not> isPlaying c" and "audioRef c"
  shows "soundingSources (togglePlay playOk c) = [] \<and> ttsStatus (togglePlay playOk c) = TtsIdle"
  using assms
  by (auto simp: cardExclusive_def togglePlay_def stopTts_def Let_def split: option.splits if_splits)

lemma onCard_frame: "j \<noteq> k \<Longrightarrow> onCard k a cards ! j = cards ! j"
  by (simp add: onCard_def)

text \<open>
  C1, as amended. Exclusion is kept inside one note card, between actions that run to
  completion: starting read-aloud on a card stops that card's read-aloud source and pauses
  that card's recorded playback, starting recorded playback stops that card's read-aloud,
  and so the card has at most one audible source after every action. An action on one card
  leaves every other card as it is.
\<close>

theorem exclusion_within_one_card:
  assumes "cardExclusive c"
  shows "cardExclusive (cardStep a c) \<and> audible (cardStep a c) \<le> 1
       \<and> \<not> audioSounding (snd (handleReadAloud_begin sect c))
       \<and> soundingSources (snd (handleReadAloud_begin sect c)) = []
       \<and> (\<not> isPlaying c \<and> audioRef c \<longrightarrow> soundingSources (togglePlay playOk c) = [])
       \<and> (j \<noteq> k \<longrightarrow> onCard k a cards ! j = cards ! j)"
proof -
  have e: "cardExclusive (cardStep a c)" using assms by (rule cardStep_exclusive)
  then have le: "audible (cardStep a c) \<le> 1" by (rule exclusive_audible)
  show ?thesis
    using e le begin_silent[OF assms, of sect] play_stops_tts[OF assms, of playOk]
    by (simp add: onCard_frame)
qed

lemma twoCards_play0:
  "onCard 0 (TogglePlay True) twoCards = [(twoCards ! 0)\<lparr>isPlaying := True, audioSounding := True\<rparr>, twoCards ! 1]"
  by (simp add: onCard_def twoCards_def mountCard_def togglePlay_def stopTts_def)

lemma twoCards_read0:
  "onCard 0 (ReadAloud TranscriptionSection (Some 7)) twoCards
     = [(twoCards ! 0)\<lparr>ttsStatus := TtsPlaying, activeTtsSection := Some TranscriptionSection,
                       ttsAudioRef := Some 7, soundingSources := [7]\<rparr>, twoCards ! 1]"
  by (simp add: onCard_def twoCards_def mountCard_def handleReadAloud_def handleReadAloud_begin_def
      handleReadAloud_finish_def stopTts_def textToRead_def truthy_str_def exampleNote_def)

text \<open>
  Across notes nothing is arbitrated: with the recording of one note playing, read-aloud
  on another note leaves it playing; with one note being read aloud, playback or read-aloud
  on another note leaves the first source sounding. Two sources are audible.
\<close>

theorem two_notes_audible_counterexample:
  "audibleSources twoCards = 0
   \<and> audibleSources (onCard 0 (TogglePlay True) twoCards) = 1
   \<and> audibleSources (onCard 1 (ReadAloud TranscriptionSection (Some 8)) (onCard 0 (TogglePlay True) twoCards)) = 2
   \<and> audioSounding (onCard 1 (ReadAloud TranscriptionSection (Some 8)) (onCard 0 (TogglePlay True) twoCards) ! 0)
   \<and> soundingSources (onCard 1 (ReadAloud TranscriptionSection (Some 8)) (onCard 0 (TogglePlay True) twoCards) ! 1) = [8]
   \<and> audibleSources (onCard 1 (TogglePlay True) (onCard 0 (ReadAloud TranscriptionSection (Some 7)) twoCards)) = 2
   \<and> soundingSources (onCard 1 (TogglePlay True) (onCard 0 (ReadAloud TranscriptionSection (Some 7)) twoCards) ! 0) = [7]
   \<and> audibleSources (onCard 1 (ReadAloud TranscriptionSection (Some 8)) (onCard 0 (ReadAloud TranscriptionSection (Some 7)) twoCards)) = 2"
  unfolding twoCards_play0 twoCards_read0
  by (simp add: onCard_def twoCards_def mountCard_def handleReadAloud_def handleReadAloud_begin_def
      handleReadAloud_finish_def stopTts_def textToRead_def truthy_str_def exampleNote_def
      togglePlay_def audibleSources_def audible_def)

theorem exclusion_within_one_card_witness:
  "cardExclusive (twoCards ! 0)
   \<and> audible (cardStep (ReadAloud TranscriptionSection (Some 7)) (cardStep (TogglePlay True) (twoCards ! 0))) = 1
   \<and> audioSounding (cardStep (TogglePlay True) (twoCards ! 0))
   \<and> \<not> audioSounding (cardStep (ReadAloud TranscriptionSection (Some 7)) (cardStep (TogglePlay True) (twoCards ! 0)))
   \<and> soundingSources (cardStep (ReadAloud TranscriptionSection (Some 7)) (cardStep (TogglePlay True) (twoCards ! 0))) = [7]"
proof -
  have a: "cardExclusive (twoCards ! 0)"
    by (simp add: twoCards_def mountCard_def cardExclusive_def)
  note s1 = exclusion_within_one_card[OF a, of "TogglePlay True"]
  then have b: "cardExclusive (cardStep (TogglePlay True) (twoCards ! 0))" by simp
  note s2 = exclusion_within_one_card[OF b, of "ReadAloud TranscriptionSection (Some 7)"]
  then have le: "audible (cardStep (ReadAloud TranscriptionSection (Some 7)) (cardStep (TogglePlay True) (twoCards ! 0))) \<le> 1"
    by simp
  have src: "soundingSources (cardStep (ReadAloud TranscriptionSection (Some 7)) (cardStep (TogglePlay True) (twoCards ! 0))) = [7]"
    by (simp add: twoCards_def mountCard_def handleReadAloud_def handleReadAloud_begin_def
      handleReadAloud_finish_def stopTts_def textToRead_def truthy_str_def exampleNote_def togglePlay_def)
  have snd: "audioSounding (cardStep (TogglePlay True) (twoCards ! 0))"
    by (simp add: twoCards_def mountCard_def togglePlay_def stopTts_def)
  from le src have "\<not> audioSounding (cardStep (ReadAloud TranscriptionSection (Some 7)) (cardStep (TogglePlay True) (twoCards ! 0)))"
    by (auto simp: audible_def split: if_splits)
  moreover from this src have "audible (cardStep (ReadAloud TranscriptionSection (Some 7)) (cardStep (TogglePlay True) (twoCards ! 0))) = 1"
    by (simp add: audible_def)
  ultimately show ?thesis using a src snd by simp
qed

end
